theory Spec2Isabelle
  imports Main
begin

section \<open>Go library functions the lexer calls\<close>

text \<open>
  A Go \<open>string\<close> is a sequence of bytes: here a \<open>char list\<close>, a \<open>char\<close> being one byte.
  A \<open>rune\<close> is a signed integer code point; \<open>int\<close> offsets are far from their 64-bit
  bounds (they are bounded by the length of the input), so both are modelled by \<open>int\<close>.

  The functions of this section belong to the packages \<open>unicode/utf8\<close> and \<open>strings\<close>
  of the Go distribution, which the lexer imports. They are transcribed from the library:
  a byte mask \<open>b & 0x3F\<close> is written \<open>b mod 64\<close> and a shift \<open>x << 6\<close> is written
  \<open>x * 64\<close>.
\<close>

type_synonym rune = int

definition RuneError :: rune where
  "RuneError = 0xFFFD"

definition RuneSelf :: rune where
  "RuneSelf = 0x80"

definition MaxRune :: rune where
  "MaxRune = 0x10FFFF"

definition RuneLen :: "rune \<Rightarrow> int" where
  \<comment> \<open>\<open>utf8.RuneLen\<close>: the number of bytes of the encoding of the rune, -1 when it has none.\<close>
  "RuneLen r =
     (if r < 0 then - 1
      else if r < 0x80 then 1
      else if r < 0x800 then 2
      else if 0xD800 \<le> r \<and> r \<le> 0xDFFF then - 1
      else if r < 0x10000 then 3
      else if r \<le> MaxRune then 4
      else - 1)"

definition ValidRune :: "rune \<Rightarrow> bool" where
  "ValidRune r = ((0 \<le> r \<and> r < 0xD800) \<or> (0xDFFF < r \<and> r \<le> MaxRune))"

definition first :: "int \<Rightarrow> int" where
  \<comment> \<open>The table \<open>utf8.first\<close>: information about the first byte of an encoding.
      \<open>0xF0\<close> is ASCII, \<open>0xF1\<close> is invalid; otherwise the low three bits are the size and
      the high four bits index \<open>acceptRanges\<close>.\<close>
  "first b =
     (if b < 0x80 then 0xF0
      else if b < 0xC2 then 0xF1
      else if b < 0xE0 then 0x02
      else if b = 0xE0 then 0x13
      else if b < 0xED then 0x03
      else if b = 0xED then 0x23
      else if b < 0xF0 then 0x03
      else if b = 0xF0 then 0x34
      else if b < 0xF4 then 0x04
      else if b = 0xF4 then 0x44
      else 0xF1)"

definition acceptRanges :: "int \<Rightarrow> int \<times> int" where
  \<comment> \<open>The table \<open>utf8.acceptRanges\<close>: the range of the second byte.\<close>
  "acceptRanges i =
     (if i = 1 then (0xA0, 0xBF)
      else if i = 2 then (0x80, 0x9F)
      else if i = 3 then (0x90, 0xBF)
      else if i = 4 then (0x80, 0x8F)
      else (0x80, 0xBF))"

definition DecodeRuneInString :: "string \<Rightarrow> rune \<times> int" where
  \<comment> \<open>\<open>utf8.DecodeRuneInString\<close>: the first rune of the text and its width in bytes;
      \<open>(RuneError, 0)\<close> on the empty text, \<open>(RuneError, 1)\<close> where the encoding is invalid.\<close>
  "DecodeRuneInString s =
     (if length s < 1 then (RuneError, 0)
      else
        let s0 = of_char (s ! 0); x = first s0 in
        if x \<ge> 0xF0 then ((if x mod 2 = 0 then s0 else RuneError), 1)
        else
          let sz = x mod 8; accept = acceptRanges (x div 16) in
          if int (length s) < sz then (RuneError, 1)
          else
            let s1 = of_char (s ! 1) in
            if s1 < fst accept \<or> snd accept < s1 then (RuneError, 1)
            else if sz \<le> 2 then ((s0 mod 32) * 64 + s1 mod 64, 2)
            else
              let s2 = of_char (s ! 2) in
              if s2 < 0x80 \<or> 0xBF < s2 then (RuneError, 1)
              else if sz \<le> 3 then ((s0 mod 16) * 4096 + (s1 mod 64) * 64 + s2 mod 64, 3)
              else
                let s3 = of_char (s ! 3) in
                if s3 < 0x80 \<or> 0xBF < s3 then (RuneError, 1)
                else ((s0 mod 8) * 262144 + (s1 mod 64) * 4096 + (s2 mod 64) * 64
                        + s3 mod 64, 4))"

lemma first_cases:
  "first b \<ge> 0xF0 \<or> first b mod 8 = 2 \<or> first b mod 8 = 3 \<or> first b mod 8 = 4"
  by (simp add: first_def)

lemma DecodeRuneInString_width:
  assumes "s \<noteq> []"
  shows "1 \<le> snd (DecodeRuneInString s) \<and> snd (DecodeRuneInString s) \<le> int (length s)"
proof -
  define x where "x = first (of_char (s ! 0))"
  have sz: "x \<ge> 0xF0 \<or> x mod 8 = 2 \<or> x mod 8 = 3 \<or> x mod 8 = 4"
    unfolding x_def by (rule first_cases)
  from assms have len: "1 \<le> int (length s)" "\<not> length s < 1"
    by (cases s; simp)+
  show ?thesis
    using sz len unfolding DecodeRuneInString_def Let_def x_def [symmetric]
    by (simp only: if_False) (auto simp only: snd_conv split: if_splits)
qed

function runes :: "string \<Rightarrow> (rune \<times> int) list" where
  \<comment> \<open>The units a \<open>for range\<close> loop over the text visits, each with its width.\<close>
  "runes s =
     (if s = [] then []
      else DecodeRuneInString s # runes (drop (nat (snd (DecodeRuneInString s))) s))"
  by pat_completeness auto
termination
proof (relation "measure length")
  show "wf (measure length)" by simp
next
  fix s :: string
  assume "s \<noteq> []"
  then show "(drop (nat (snd (DecodeRuneInString s))) s, s) \<in> measure length"
    using DecodeRuneInString_width [of s] by simp
qed

declare runes.simps [simp del]

definition EncodeRune :: "rune \<Rightarrow> string" where
  \<comment> \<open>The conversion \<open>string(r)\<close> of a valid rune: its UTF-8 encoding.\<close>
  "EncodeRune r =
     (if r < 0x80 then [char_of r]
      else if r < 0x800 then [char_of (0xC0 + r div 64), char_of (0x80 + r mod 64)]
      else if r < 0x10000 then
        [char_of (0xE0 + r div 4096), char_of (0x80 + (r div 64) mod 64),
         char_of (0x80 + r mod 64)]
      else
        [char_of (0xF0 + r div 262144), char_of (0x80 + (r div 4096) mod 64),
         char_of (0x80 + (r div 64) mod 64), char_of (0x80 + r mod 64)])"

fun Index_found :: "string \<Rightarrow> string \<Rightarrow> bool" where
  \<comment> \<open>\<open>strings.Index(s, substr) >= 0\<close>: the second text occurs in the first.\<close>
  "Index_found [] substr = (substr = [])"
| "Index_found (c # s) substr =
     (take (length substr) (c # s) = substr \<or> Index_found s substr)"

definition ContainsRune :: "string \<Rightarrow> rune \<Rightarrow> bool" where
  \<comment> \<open>\<open>strings.ContainsRune(s, r)\<close>, that is \<open>strings.IndexRune(s, r) >= 0\<close>.\<close>
  "ContainsRune s r =
     (if 0 \<le> r \<and> r < RuneSelf then list_ex (\<lambda>c. of_char c = r) s
      else if r = RuneError then list_ex (\<lambda>u. fst u = RuneError) (runes s)
      else if \<not> ValidRune r then False
      else Index_found s (EncodeRune r))"

definition truncateString :: "nat \<Rightarrow> string \<Rightarrow> string" where
  \<comment> \<open>\<open>truncateString\<close> of package \<open>fmt\<close>: the text cut after its first \<open>prec\<close> runes,
      as a precision does with the verbs \<open>%s\<close> and \<open>%q\<close>.\<close>
  "truncateString prec s = take (nat (sum_list (map snd (take prec (runes s))))) s"

subsection \<open>Decoding a text unit by unit\<close>

text \<open>
  Decoding looks at no byte beyond the width it returns that could change its result: the
  first unit of a text is the first unit of every prefix that holds its bytes. So the
  units of a text cut at a unit boundary are the first units of the text, and the units
  after the boundary are the remaining ones.
\<close>

lemma DecodeRuneInString_take:
  assumes "s \<noteq> []" and "snd (DecodeRuneInString s) \<le> int k"
  shows "DecodeRuneInString (take k s) = DecodeRuneInString s"
proof -
  define x where "x = first (of_char (s ! 0))"
  have sz: "x \<ge> 0xF0 \<or> x mod 8 = 2 \<or> x mod 8 = 3 \<or> x mod 8 = 4"
    unfolding x_def by (rule first_cases)
  from assms(1) have len: "\<not> length s < 1"
    by (cases s; simp)
  from DecodeRuneInString_width [OF assms(1)] assms(2) have k: "1 \<le> k" by simp
  then have t0: "take k s ! 0 = s ! 0" by simp
  have tl: "\<not> length (take k s) < 1" using k len by simp
  have D: "DecodeRuneInString s = (
        let s0 = of_char (s ! 0) in
        if x \<ge> 0xF0 then ((if x mod 2 = 0 then s0 else RuneError), 1)
        else
          let sz = x mod 8; accept = acceptRanges (x div 16) in
          if int (length s) < sz then (RuneError, 1)
          else
            let s1 = of_char (s ! 1) in
            if s1 < fst accept \<or> snd accept < s1 then (RuneError, 1)
            else if sz \<le> 2 then ((s0 mod 32) * 64 + s1 mod 64, 2)
            else
              let s2 = of_char (s ! 2) in
              if s2 < 0x80 \<or> 0xBF < s2 then (RuneError, 1)
              else if sz \<le> 3 then ((s0 mod 16) * 4096 + (s1 mod 64) * 64 + s2 mod 64, 3)
              else
                let s3 = of_char (s ! 3) in
                if s3 < 0x80 \<or> 0xBF < s3 then (RuneError, 1)
                else ((s0 mod 8) * 262144 + (s1 mod 64) * 4096 + (s2 mod 64) * 64
                        + s3 mod 64, 4))"
    unfolding DecodeRuneInString_def [of s] x_def using len by (simp add: Let_def)
  have T: "DecodeRuneInString (take k s) = (
        let s0 = of_char (s ! 0) in
        if x \<ge> 0xF0 then ((if x mod 2 = 0 then s0 else RuneError), 1)
        else
          let sz = x mod 8; accept = acceptRanges (x div 16) in
          if int (length (take k s)) < sz then (RuneError, 1)
          else
            let s1 = of_char (take k s ! 1) in
            if s1 < fst accept \<or> snd accept < s1 then (RuneError, 1)
            else if sz \<le> 2 then ((s0 mod 32) * 64 + s1 mod 64, 2)
            else
              let s2 = of_char (take k s ! 2) in
              if s2 < 0x80 \<or> 0xBF < s2 then (RuneError, 1)
              else if sz \<le> 3 then ((s0 mod 16) * 4096 + (s1 mod 64) * 64 + s2 mod 64, 3)
              else
                let s3 = of_char (take k s ! 3) in
                if s3 < 0x80 \<or> 0xBF < s3 then (RuneError, 1)
                else ((s0 mod 8) * 262144 + (s1 mod 64) * 4096 + (s2 mod 64) * 64
                        + s3 mod 64, 4))"
    unfolding DecodeRuneInString_def [of "take k s"] x_def t0 using tl by (simp add: Let_def del: length_take nth_take)
  from sz consider (one) "x \<ge> 0xF0" | (two) "x < 0xF0" "x mod 8 = 2"
    | (three) "x < 0xF0" "x mod 8 = 3" | (four) "x < 0xF0" "x mod 8 = 4"
    by linarith
  then show ?thesis
  proof cases
    case one
    then show ?thesis unfolding D T by (simp add: Let_def)
  next
    case two
    show ?thesis
    proof (cases "2 \<le> k")
      case True
      then show ?thesis unfolding D T using two by (auto simp: Let_def min_def)
    next
      case False
      with assms(2) show ?thesis unfolding D T using two
        by (auto simp: Let_def min_def split: if_splits)
    qed
  next
    case three
    show ?thesis
    proof (cases "3 \<le> k")
      case True
      then show ?thesis unfolding D T using three by (auto simp: Let_def min_def)
    next
      case False
      with assms(2) show ?thesis unfolding D T using three
        by (auto simp: Let_def min_def split: if_splits)
    qed
  next
    case four
    show ?thesis
    proof (cases "4 \<le> k")
      case True
      then show ?thesis unfolding D T using four by (auto simp: Let_def min_def)
    next
      case False
      with assms(2) show ?thesis unfolding D T using four
        by (auto simp: Let_def min_def split: if_splits)
    qed
  qed
qed

lemma DecodeRuneInString_append:
  assumes "s \<noteq> []"
    and "RuneLen (fst (DecodeRuneInString s)) = snd (DecodeRuneInString s)"
  shows "DecodeRuneInString (s @ t) = DecodeRuneInString s"
proof -
  define x where "x = first (of_char (s ! 0))"
  have sz: "x \<ge> 0xF0 \<or> x mod 8 = 2 \<or> x mod 8 = 3 \<or> x mod 8 = 4"
    unfolding x_def by (rule first_cases)
  from assms(1) have len: "\<not> length s < 1"
    by (cases s; simp)
  then have t0: "(s @ t) ! 0 = s ! 0" by (simp add: nth_append)
  have tl: "\<not> length (s @ t) < 1" using len by simp
  have D: "DecodeRuneInString s = (
        let s0 = of_char (s ! 0) in
        if x \<ge> 0xF0 then ((if x mod 2 = 0 then s0 else RuneError), 1)
        else
          let sz = x mod 8; accept = acceptRanges (x div 16) in
          if int (length s) < sz then (RuneError, 1)
          else
            let s1 = of_char (s ! 1) in
            if s1 < fst accept \<or> snd accept < s1 then (RuneError, 1)
            else if sz \<le> 2 then ((s0 mod 32) * 64 + s1 mod 64, 2)
            else
              let s2 = of_char (s ! 2) in
              if s2 < 0x80 \<or> 0xBF < s2 then (RuneError, 1)
              else if sz \<le> 3 then ((s0 mod 16) * 4096 + (s1 mod 64) * 64 + s2 mod 64, 3)
              else
                let s3 = of_char (s ! 3) in
                if s3 < 0x80 \<or> 0xBF < s3 then (RuneError, 1)
                else ((s0 mod 8) * 262144 + (s1 mod 64) * 4096 + (s2 mod 64) * 64
                        + s3 mod 64, 4))"
    unfolding DecodeRuneInString_def [of s] x_def using len by (simp add: Let_def)
  have T: "DecodeRuneInString (s @ t) = (
        let s0 = of_char (s ! 0) in
        if x \<ge> 0xF0 then ((if x mod 2 = 0 then s0 else RuneError), 1)
        else
          let sz = x mod 8; accept = acceptRanges (x div 16) in
          if int (length (s @ t)) < sz then (RuneError, 1)
          else
            let s1 = of_char ((s @ t) ! 1) in
            if s1 < fst accept \<or> snd accept < s1 then (RuneError, 1)
            else if sz \<le> 2 then ((s0 mod 32) * 64 + s1 mod 64, 2)
            else
              let s2 = of_char ((s @ t) ! 2) in
              if s2 < 0x80 \<or> 0xBF < s2 then (RuneError, 1)
              else if sz \<le> 3 then ((s0 mod 16) * 4096 + (s1 mod 64) * 64 + s2 mod 64, 3)
              else
                let s3 = of_char ((s @ t) ! 3) in
                if s3 < 0x80 \<or> 0xBF < s3 then (RuneError, 1)
                else ((s0 mod 8) * 262144 + (s1 mod 64) * 4096 + (s2 mod 64) * 64
                        + s3 mod 64, 4))"
    unfolding DecodeRuneInString_def [of "s @ t"] x_def t0 using tl
    by (simp only: Let_def if_False)
  have short: False if "x < 0xF0" "int (length s) < x mod 8"
    using that assms(2) unfolding D by (simp add: Let_def RuneLen_def RuneError_def)
  from sz consider (one) "x \<ge> 0xF0" | (two) "x < 0xF0" "x mod 8 = 2"
    | (three) "x < 0xF0" "x mod 8 = 3" | (four) "x < 0xF0" "x mod 8 = 4"
    by linarith
  then show ?thesis
  proof cases
    case one
    then show ?thesis unfolding D T by (simp add: Let_def)
  next
    case two
    with short have "2 \<le> length s" by fastforce
    then show ?thesis unfolding D T using two by (simp add: Let_def nth_append)
  next
    case three
    with short have "3 \<le> length s" by fastforce
    then show ?thesis unfolding D T using three by (simp add: Let_def nth_append)
  next
    case four
    with short have "4 \<le> length s" by fastforce
    then show ?thesis unfolding D T using four by (simp add: Let_def nth_append)
  qed
qed

lemma runes_Nil [simp]: "runes [] = []"
  by (simp add: runes.simps)

lemma runes_nonempty:
  "s \<noteq> [] \<Longrightarrow> runes s = DecodeRuneInString s # runes (drop (nat (snd (DecodeRuneInString s))) s)"
  by (subst runes.simps) simp

lemma widths_nonneg: "0 \<le> sum_list (map snd (take n (runes s)))"
proof (induction n arbitrary: s)
  case 0
  show ?case by simp
next
  case (Suc n)
  show ?case
  proof (cases "s = []")
    case True
    then show ?thesis by simp
  next
    case False
    with Suc [of "drop (nat (snd (DecodeRuneInString s))) s"] DecodeRuneInString_width [OF False]
    show ?thesis by (simp add: runes_nonempty)
  qed
qed

lemma runes_take:
  "runes (take (nat (sum_list (map snd (take n (runes s))))) s) = take n (runes s)"
proof (induction n arbitrary: s)
  case 0
  show ?case by simp
next
  case (Suc n)
  show ?case
  proof (cases "s = []")
    case True
    then show ?thesis by simp
  next
    case False
    define w where "w = snd (DecodeRuneInString s)"
    define rest where "rest = drop (nat w) s"
    define m where "m = sum_list (map snd (take n (runes rest)))"
    have w: "1 \<le> w" "w \<le> int (length s)"
      using DecodeRuneInString_width [OF False] by (simp_all add: w_def)
    have m: "0 \<le> m" unfolding m_def by (rule widths_nonneg)
    have rs: "runes s = DecodeRuneInString s # runes rest"
      using False by (simp add: runes_nonempty rest_def w_def)
    have total: "sum_list (map snd (take (Suc n) (runes s))) = w + m"
      by (simp add: rs m_def w_def)
    have ne: "take (nat (w + m)) s \<noteq> []"
      using False w m by simp
    have dec: "DecodeRuneInString (take (nat (w + m)) s) = DecodeRuneInString s"
      using w m by (intro DecodeRuneInString_take [OF False]) (simp add: w_def)
    have "drop (nat w) (take (nat (w + m)) s) = take (nat m) rest"
      using w m by (simp add: drop_take rest_def nat_add_distrib)
    moreover have "runes (take (nat (w + m)) s)
        = DecodeRuneInString s # runes (drop (nat w) (take (nat (w + m)) s))"
      using runes_nonempty [OF ne] unfolding dec w_def [symmetric] .
    ultimately have "runes (take (nat (w + m)) s) = DecodeRuneInString s # runes (take (nat m) rest)"
      by simp
    also have "runes (take (nat m) rest) = take n (runes rest)"
      unfolding m_def by (rule Suc)
    finally show ?thesis
      unfolding total by (simp add: rs)
  qed
qed

lemma runes_drop:
  "runes (drop (nat (sum_list (map snd (take n (runes s))))) s) = drop n (runes s)"
proof (induction n arbitrary: s)
  case 0
  show ?case by simp
next
  case (Suc n)
  show ?case
  proof (cases "s = []")
    case True
    then show ?thesis by simp
  next
    case False
    define w where "w = snd (DecodeRuneInString s)"
    define rest where "rest = drop (nat w) s"
    define m where "m = sum_list (map snd (take n (runes rest)))"
    have w: "1 \<le> w" using DecodeRuneInString_width [OF False] by (simp add: w_def)
    have m: "0 \<le> m" unfolding m_def by (rule widths_nonneg)
    have rs: "runes s = DecodeRuneInString s # runes rest"
      using False by (simp add: runes_nonempty rest_def w_def)
    have total: "sum_list (map snd (take (Suc n) (runes s))) = w + m"
      by (simp add: rs m_def w_def)
    have "drop (nat (w + m)) s = drop (nat m) rest"
      using w m by (simp add: rest_def nat_add_distrib add.commute)
    also have "runes \<dots> = drop n (runes rest)"
      unfolding m_def by (rule Suc)
    finally show ?thesis
      unfolding total by (simp add: rs)
  qed
qed

lemma widths_total: "sum_list (map snd (runes s)) = int (length s)"
proof (induction s rule: runes.induct)
  case (1 s)
  show ?case
  proof (cases "s = []")
    case True
    then show ?thesis by simp
  next
    case False
    with 1 DecodeRuneInString_width [OF False] show ?thesis
      by (simp add: runes_nonempty of_nat_diff nat_le_iff)
  qed
qed

section \<open>The rune stack and the state stack\<close>

text \<open>
  \<open>runeStack\<close> and \<open>stateStack\<close> are singly linked lists reached through their \<open>start\<close>
  node; the nodes are private to the stack, so a stack is the list of its entries, the
  \<open>start\<close> node first.
\<close>

type_synonym TokenType = int

definition EOFToken :: TokenType where
  "EOFToken = - 1"

definition ErrorToken :: TokenType where
  "ErrorToken = 0"

type_synonym runeStack = "rune list"

definition NewRuneStack :: runeStack where
  "NewRuneStack = []"

definition runeStack_Push :: "rune \<Rightarrow> runeStack \<Rightarrow> runeStack" where
  "runeStack_Push r s = (case s of [] \<Rightarrow> [r] | _ # _ \<Rightarrow> r # s)"

definition runeStack_Pop :: "runeStack \<Rightarrow> rune \<times> runeStack" where
  "runeStack_Pop s = (case s of [] \<Rightarrow> (EOFToken, []) | r # rest \<Rightarrow> (r, rest))"

definition runeStack_Clear :: "runeStack \<Rightarrow> runeStack" where
  "runeStack_Clear s = []"

type_synonym 's stateStack = "'s list"

definition NewStateStack :: "'s stateStack" where
  "NewStateStack = []"

definition stateStack_Push :: "'s \<Rightarrow> 's stateStack \<Rightarrow> 's stateStack" where
  "stateStack_Push f s = (case s of [] \<Rightarrow> [f] | _ # _ \<Rightarrow> f # s)"

definition stateStack_Pop :: "'s stateStack \<Rightarrow> 's option \<times> 's stateStack" where
  "stateStack_Pop s = (case s of [] \<Rightarrow> (None, []) | f # rest \<Rightarrow> (Some f, rest))"

definition stateStack_Clear :: "'s stateStack \<Rightarrow> 's stateStack" where
  "stateStack_Clear s = []"

section \<open>Tokens and the lexer\<close>

record Token =
  Type :: TokenType
  Value :: string
  Start :: int
  End :: int

text \<open>
  The channel \<open>Tokens\<close> is \<open>None\<close> while it is \<open>nil\<close>. An allocated channel is its
  capacity, the tokens in its buffer, the oldest first, and whether it has been closed.
  A send on a channel whose buffer is full waits until a token is received, and a receive
  on an open channel whose buffer is empty waits until a token is sent. The model is
  sequential: a call that waits for the other side does not return, and its value is the
  fault that says so.
\<close>

record chan =
  cap :: int
  buffer :: "Token list"
  closed :: bool

definition make_chan :: "int \<Rightarrow> chan" where
  "make_chan n = \<lparr>cap = n, buffer = [], closed = False\<rparr>"

text \<open>
  A \<open>StateFunc\<close> is named by a value of type \<open>'s\<close> (\<open>None\<close> is the \<open>nil\<close> function); what
  the named functions do is given to the run loop as a table. The error handler acts on
  the world outside the lexer, of type \<open>'w\<close>.
\<close>

record ('s, 'w) L =
  Input :: string
  Start :: int
  Position :: int
  StartState :: "'s option"
  Err :: "string option"
  Tokens :: "chan option"
  ErrorHandler :: "(string \<Rightarrow> 'w \<Rightarrow> 'w) option"
  Rewind :: runeStack
  StateRecord :: "'s stateStack"

datatype fault =
    SliceBounds \<comment> \<open>run-time panic: slice bounds out of range\<close>
  | Panic string \<comment> \<open>\<open>panic(e)\<close>\<close>
  | SendOnClosed \<comment> \<open>run-time panic: send on closed channel\<close>
  | BlockedForever \<comment> \<open>a send or a receive on a \<open>nil\<close> channel never returns\<close>
  | SendWaits \<comment> \<open>a send on a full buffer waits until a token is received\<close>
  | ReceiveWaits \<comment> \<open>a receive on an empty open channel waits until a token is sent\<close>
  | CloseOfNil \<comment> \<open>run-time panic: close of nil channel\<close>
  | CloseOfClosed \<comment> \<open>run-time panic: close of closed channel\<close>

definition slice :: "string \<Rightarrow> int \<Rightarrow> int \<Rightarrow> fault + string" where
  \<comment> \<open>The slice expression \<open>s[lo:hi]\<close>, which panics unless \<open>0 \<le> lo \<le> hi \<le> len(s)\<close>.\<close>
  "slice s lo hi =
     (if 0 \<le> lo \<and> lo \<le> hi \<and> hi \<le> int (length s)
      then Inr (take (nat hi - nat lo) (drop (nat lo) s))
      else Inl SliceBounds)"

definition Token_String :: "(string \<Rightarrow> string) \<Rightarrow> Token \<Rightarrow> string" where
  \<comment> \<open>\<open>quote\<close> is \<open>strconv.Quote\<close>, which the verb \<open>%q\<close> applies; the precision of
      \<open>%.10q\<close> cuts the text after its first 10 runes before it is quoted.\<close>
  "Token_String quote t =
     (if Type t = EOFToken then ''EOF''
      else if Type t = ErrorToken then Value t
      else if length (Value t) > 10
        then quote (truncateString 10 (Value t)) @ ''...''
        else quote (Value t))"

definition New :: "string \<Rightarrow> 's option \<Rightarrow> ('s, 'w) L" where
  "New src start =
     \<lparr>Input = src, Start = 0, Position = 0, StartState = start, Err = None, Tokens = None,
      ErrorHandler = None, Rewind = NewRuneStack, StateRecord = NewStateStack\<rparr>"

definition Current :: "('s, 'w) L \<Rightarrow> fault + string" where
  "Current l = slice (Input l) (L.Start l) (Position l)"

definition Emit :: "TokenType \<Rightarrow> ('s, 'w) L \<Rightarrow> fault + ('s, 'w) L" where
  "Emit t l =
     (case Current l of
        Inl e \<Rightarrow> Inl e
      | Inr v \<Rightarrow>
          let tok = \<lparr>Type = t, Value = v, Start = L.Start l, End = Position l\<rparr> in
          (case Tokens l of
             None \<Rightarrow> Inl BlockedForever
           | Some c \<Rightarrow>
               if closed c then Inl SendOnClosed
               else if int (length (buffer c)) < cap c then
                 Inr (l\<lparr>Tokens := Some (c\<lparr>buffer := buffer c @ [tok]\<rparr>),
                        L.Start := Position l,
                        Rewind := runeStack_Clear (Rewind l)\<rparr>)
               else Inl SendWaits))"

definition NextToken :: "('s, 'w) L \<Rightarrow> fault + (Token option \<times> bool) \<times> ('s, 'w) L" where
  \<comment> \<open>The receive \<open>tok, ok := <-l.Tokens\<close>: the oldest token of the buffer; on a closed
      channel whose buffer is empty, \<open>ok\<close> is false and the result is \<open>(nil, true)\<close>.\<close>
  "NextToken l =
     (case Tokens l of
        None \<Rightarrow> Inl BlockedForever
      | Some c \<Rightarrow>
          (case buffer c of
             tok # rest \<Rightarrow> Inr ((Some tok, False), l\<lparr>Tokens := Some (c\<lparr>buffer := rest\<rparr>)\<rparr>)
           | [] \<Rightarrow> if closed c then Inr ((None, True), l) else Inl ReceiveWaits))"

definition Ignore :: "('s, 'w) L \<Rightarrow> ('s, 'w) L" where
  "Ignore l = l\<lparr>L.Start := Position l, Rewind := runeStack_Clear (Rewind l)\<rparr>"

definition IgnoreCharacter :: "('s, 'w) L \<Rightarrow> fault + ('s, 'w) L" where
  "IgnoreCharacter l =
     (let (r, st) = runeStack_Pop (Rewind l);
          l1 = l\<lparr>Rewind := st\<rparr>;
          width = RuneLen r
      in case slice (Input l1) 0 (Position l1 - width) of
           Inl e \<Rightarrow> Inl e
         | Inr a \<Rightarrow>
             (case slice (Input l1) (Position l1) (int (length (Input l1))) of
                Inl e \<Rightarrow> Inl e
              | Inr b \<Rightarrow> Inr (l1\<lparr>Input := a @ b, Position := Position l1 - width\<rparr>)))"

definition Next :: "('s, 'w) L \<Rightarrow> fault + rune \<times> ('s, 'w) L" where
  "Next l =
     (case slice (Input l) (Position l) (int (length (Input l))) of
        Inl e \<Rightarrow> Inl e
      | Inr str \<Rightarrow>
          let (r, s) = (if length str = 0 then (EOFToken, 0) else DecodeRuneInString str) in
          Inr (r, l\<lparr>Position := Position l + s, Rewind := runeStack_Push r (Rewind l)\<rparr>))"

definition Backup :: "('s, 'w) L \<Rightarrow> bool \<times> ('s, 'w) L" where
  "Backup l =
     (let (r, st) = runeStack_Pop (Rewind l);
          l1 = l\<lparr>Rewind := st\<rparr>
      in if r > EOFToken then
           let size = RuneLen r;
               l2 = l1\<lparr>Position := Position l1 - size\<rparr>
           in if Position l2 < L.Start l2 then (True, l2\<lparr>Position := L.Start l2\<rparr>)
              else (False, l2)
         else (False, l1))"

definition Peek :: "('s, 'w) L \<Rightarrow> fault + rune \<times> ('s, 'w) L" where
  "Peek l =
     (case Next l of
        Inl e \<Rightarrow> Inl e
      | Inr (r, l1) \<Rightarrow> Inr (r, snd (Backup l1)))"

fun Next_times :: "nat \<Rightarrow> rune \<Rightarrow> ('s, 'w) L \<Rightarrow> fault + rune \<times> ('s, 'w) L" where
  \<comment> \<open>The first loop of \<open>PeekMany\<close>, with \<open>i\<close> rounds to go and \<open>r\<close> the last rune read.\<close>
  "Next_times 0 r l = Inr (r, l)"
| "Next_times (Suc i) r l =
     (case Next l of Inl e \<Rightarrow> Inl e | Inr (r', l') \<Rightarrow> Next_times i r' l')"

fun Backup_times :: "nat \<Rightarrow> ('s, 'w) L \<Rightarrow> ('s, 'w) L" where
  \<comment> \<open>The second loop of \<open>PeekMany\<close>, with \<open>i\<close> rounds to go.\<close>
  "Backup_times 0 l = l"
| "Backup_times (Suc i) l = Backup_times i (snd (Backup l))"

definition PeekMany :: "int \<Rightarrow> ('s, 'w) L \<Rightarrow> fault + rune \<times> ('s, 'w) L" where
  \<comment> \<open>Each loop runs \<open>n\<close> times, and not at all when \<open>n \<le> 0\<close>; \<open>r\<close> starts as 0.\<close>
  "PeekMany n l =
     (case Next_times (nat n) 0 l of
        Inl e \<Rightarrow> Inl e
      | Inr (r, l1) \<Rightarrow> Inr (r, Backup_times (nat n) l1))"

definition Take :: "string \<Rightarrow> ('s, 'w) L \<Rightarrow> fault + bool \<times> ('s, 'w) L" where
  "Take chars l =
     (case Next l of
        Inl e \<Rightarrow> Inl e
      | Inr (r, l1) \<Rightarrow>
          if ContainsRune chars r then Inr (True, l1)
          else Inr (False, snd (Backup l1)))"

lemma ContainsRune_EOFToken:
  "\<not> ContainsRune chars EOFToken"
  by (simp add: ContainsRune_def EOFToken_def RuneError_def ValidRune_def)

lemma Next_advances:
  assumes "Next l = Inr (r, l1)" and "r \<noteq> EOFToken"
  shows "Input l1 = Input l \<and> Position l < Position l1 \<and> Position l1 \<le> int (length (Input l))"
proof -
  from assms(1) have bounds: "0 \<le> Position l" "Position l \<le> int (length (Input l))"
    by (auto simp: Next_def slice_def split: if_splits)
  define str where "str = drop (nat (Position l)) (Input l)"
  from assms bounds have ne: "str \<noteq> []"
    by (auto simp: Next_def slice_def str_def split: if_splits prod.splits)
  from assms(1) bounds ne have l1: "l1 = l\<lparr>Position := Position l + snd (DecodeRuneInString str),
      Rewind := runeStack_Push r (Rewind l)\<rparr>"
    by (auto simp: Next_def slice_def str_def split: if_splits prod.splits)
  have "int (length str) = int (length (Input l)) - Position l"
    using bounds by (simp add: str_def)
  with DecodeRuneInString_width [OF ne] show ?thesis
    by (simp add: l1)
qed

function TakeMany :: "string \<Rightarrow> ('s, 'w) L \<Rightarrow> fault + ('s, 'w) L" where
  \<comment> \<open>One call of \<open>Next\<close> and the test of the loop; the loop goes on with the next call
      of \<open>Next\<close>, and \<open>Backup\<close> follows the first rune that is not accepted.\<close>
  "TakeMany chars l =
     (case Next l of
        Inl e \<Rightarrow> Inl e
      | Inr (r, l1) \<Rightarrow>
          if ContainsRune chars r then TakeMany chars l1
          else Inr (snd (Backup l1)))"
  by pat_completeness auto
termination
proof (relation "measure (\<lambda>(chars, l). nat (int (length (Input l)) - Position l))")
  show "wf (measure (\<lambda>(chars, l). nat (int (length (Input l)) - Position l)))" by simp
next
  fix chars :: string and l :: "('s, 'w) L" and x r l1
  assume "Next l = Inr x" and "(r, l1) = x" and "ContainsRune chars r"
  then have "Next l = Inr (r, l1)" and "r \<noteq> EOFToken"
    using ContainsRune_EOFToken by auto
  from Next_advances [OF this]
  show "((chars, l1), (chars, l)) \<in> measure (\<lambda>(chars, l). nat (int (length (Input l)) - Position l))"
    by simp
qed

declare TakeMany.simps [simp del]

definition Error :: "string \<Rightarrow> ('s, 'w) L \<Rightarrow> 'w \<Rightarrow> fault + ('s, 'w) L \<times> 'w" where
  "Error e l w =
     (case ErrorHandler l of
        Some h \<Rightarrow> Inr (l\<lparr>Err := Some e\<rparr>, h e w)
      | None \<Rightarrow> Inl (Panic e))"

definition close :: "chan option \<Rightarrow> fault + chan option" where
  \<comment> \<open>The built-in \<open>close\<close> of a channel.\<close>
  "close c =
     (case c of
        None \<Rightarrow> Inl CloseOfNil
      | Some ch \<Rightarrow> if closed ch then Inl CloseOfClosed else Inr (Some (ch\<lparr>closed := True\<rparr>)))"

type_synonym ('s, 'w) table =
  "'s \<Rightarrow> ('s, 'w) L \<Rightarrow> 'w \<Rightarrow> fault + 's option \<times> ('s, 'w) L \<times> 'w"

partial_function (option) run_loop ::
  "('s, 'w) table \<Rightarrow> 's option \<Rightarrow> ('s, 'w) L \<Rightarrow> 'w \<Rightarrow> (fault + ('s, 'w) L \<times> 'w) option"
where
  \<comment> \<open>The loop of \<open>run\<close>, from the current \<open>state\<close>; \<open>None\<close> when it never ends.\<close>
  "run_loop table state l w =
     (case state of
        None \<Rightarrow>
          (case close (Tokens l) of
             Inl e \<Rightarrow> Some (Inl e)
           | Inr c \<Rightarrow> Some (Inr (l\<lparr>Tokens := c\<rparr>, w)))
      | Some f \<Rightarrow>
          (case table f l w of
             Inl e \<Rightarrow> Some (Inl e)
           | Inr (state', l', w') \<Rightarrow> run_loop table state' l' w'))"

definition run ::
  "('s, 'w) table \<Rightarrow> ('s, 'w) L \<Rightarrow> 'w \<Rightarrow> (fault + ('s, 'w) L \<times> 'w) option" where
  "run table l w = run_loop table (StartState l) l w"

definition RunLexer :: "('s, 'w) L \<Rightarrow> ('s, 'w) L" where
  \<comment> \<open>The lexer as \<open>RunLexer\<close> leaves it, on which the goroutine of \<open>run\<close> starts.\<close>
  "RunLexer l =
     (let buffSize = int (length (Input l)) div 2;
          buffSize = (if buffSize \<le> 0 then 1 else buffSize)
      in l\<lparr>Tokens := Some (make_chan buffSize)\<rparr>)"

definition RunLexerSync ::
  "('s, 'w) table \<Rightarrow> ('s, 'w) L \<Rightarrow> 'w \<Rightarrow> (fault + ('s, 'w) L \<times> 'w) option" where
  "RunLexerSync table l w =
     (let buffSize = int (length (Input l)) div 2;
          buffSize = (if buffSize \<le> 0 then 1 else buffSize)
      in run table (l\<lparr>Tokens := Some (make_chan buffSize)\<rparr>) w)"

section \<open>The rewind stack as the journal of the lexeme\<close>

text \<open>
  A text is well encoded when every unit that decoding it yields occupies as many bytes as
  \<open>utf8.RuneLen\<close> gives for its rune. Valid UTF-8 is well encoded; a byte that starts
  no valid encoding is not, being one byte wide and decoded to U+FFFD, of length 3.
\<close>

definition well_encoded :: "string \<Rightarrow> bool" where
  "well_encoded s = list_all (\<lambda>u. RuneLen (fst u) = snd u) (runes s)"

lemma runes_append:
  assumes "well_encoded a"
  shows "runes (a @ b) = runes a @ runes b"
  using assms
proof (induction a rule: runes.induct)
  case (1 a)
  show ?case
  proof (cases "a = []")
    case True
    then show ?thesis by simp
  next
    case False
    define w where "w = snd (DecodeRuneInString a)"
    have w: "1 \<le> w" "w \<le> int (length a)"
      using DecodeRuneInString_width [OF False] by (simp_all add: w_def)
    from "1.prems" False have valid: "RuneLen (fst (DecodeRuneInString a)) = w"
      and rest: "well_encoded (drop (nat w) a)"
      by (simp_all add: well_encoded_def runes_nonempty w_def)
    have dec: "DecodeRuneInString (a @ b) = DecodeRuneInString a"
      using False valid unfolding w_def by (rule DecodeRuneInString_append)
    from False have ne: "a @ b \<noteq> []" by simp
    have "runes (a @ b) = DecodeRuneInString a # runes (drop (nat w) (a @ b))"
      using runes_nonempty [OF ne] unfolding dec w_def [symmetric] .
    also have "drop (nat w) (a @ b) = drop (nat w) a @ b"
      using w by simp
    also have "runes (drop (nat w) a @ b) = runes (drop (nat w) a) @ runes b"
      using "1.IH" [OF False] rest by (simp add: w_def)
    finally have "runes (a @ b) = DecodeRuneInString a # (runes (drop (nat w) a) @ runes b)" .
    moreover have "runes a = DecodeRuneInString a # runes (drop (nat w) a)"
      using runes_nonempty [OF False] unfolding w_def [symmetric] .
    ultimately show ?thesis by simp
  qed
qed

text \<open>
  The invariant of the rewind stack: the lexer has read the first \<open>n\<close> units of the input
  from \<open>Start\<close> on, the position is after them, and the stack holds their runes, the last
  one first, under \<open>k\<close> end-of-input sentinels, which are there only when the whole
  input has been read. The input is well encoded from \<open>Start\<close> on.
\<close>

definition journal :: "('s, 'w) L \<Rightarrow> nat \<Rightarrow> nat \<Rightarrow> bool" where
  "journal l n k =
     (let U = runes (drop (nat (L.Start l)) (Input l)) in
      0 \<le> L.Start l \<and> L.Start l \<le> int (length (Input l)) \<and> n \<le> length U
      \<and> Position l = L.Start l + sum_list (map snd (take n U))
      \<and> Rewind l = replicate k EOFToken @ rev (map fst (take n U))
      \<and> (k = 0 \<or> n = length U)
      \<and> list_all (\<lambda>u. RuneLen (fst u) = snd u) U)"

lemma widths_split:
  "sum_list (map snd (take n (runes s))) + int (length (drop (nat (sum_list (map snd (take n (runes s))))) s))
     = int (length s)"
proof -
  have "sum_list (map snd (take n (runes s) @ drop n (runes s)))
      = sum_list (map snd (take n (runes s))) + sum_list (map snd (drop n (runes s)))"
    by (simp only: map_append sum_list.append)
  then have "sum_list (map snd (runes s))
      = sum_list (map snd (take n (runes s))) + sum_list (map snd (drop n (runes s)))"
    by (simp only: append_take_drop_id)
  moreover have "sum_list (map snd (drop n (runes s)))
      = int (length (drop (nat (sum_list (map snd (take n (runes s))))) s))"
    using widths_total [of "drop (nat (sum_list (map snd (take n (runes s))))) s"]
    by (simp only: runes_drop)
  ultimately show ?thesis
    using widths_total [of s] by linarith
qed

lemma widths_le: "sum_list (map snd (take n (runes s))) \<le> int (length s)"
  using widths_split [of n s] by linarith

lemma journal_bounds:
  assumes "journal l n k"
  shows "0 \<le> L.Start l" and "L.Start l \<le> Position l" and "Position l \<le> int (length (Input l))"
proof -
  define S where "S = drop (nat (L.Start l)) (Input l)"
  from assms have st: "0 \<le> L.Start l" "L.Start l \<le> int (length (Input l))"
    and pos: "Position l = L.Start l + sum_list (map snd (take n (runes S)))"
    by (simp_all add: journal_def Let_def S_def)
  from st have "int (length S) = int (length (Input l)) - L.Start l"
    by (simp add: S_def)
  with widths_le [of n S] widths_nonneg [of n S] pos st
  show "0 \<le> L.Start l" and "L.Start l \<le> Position l" and "Position l \<le> int (length (Input l))"
    by simp_all
qed

lemma journal_rest:
  assumes "journal l n k"
  shows "runes (drop (nat (Position l)) (Input l)) = drop n (runes (drop (nat (L.Start l)) (Input l)))"
proof -
  define S where "S = drop (nat (L.Start l)) (Input l)"
  from assms have st: "0 \<le> L.Start l"
    and pos: "Position l = L.Start l + sum_list (map snd (take n (runes S)))"
    by (simp_all add: journal_def Let_def S_def)
  have "drop (nat (Position l)) (Input l) = drop (nat (sum_list (map snd (take n (runes S))))) S"
    using st widths_nonneg [of n S] by (simp add: pos S_def nat_add_distrib add.commute)
  then show ?thesis
    unfolding S_def [symmetric] by (simp only: runes_drop)
qed

lemma drop_eq_ConsD:
  assumes "drop n xs = y # ys"
  shows "n < length xs" and "xs ! n = y"
proof -
  show lt: "n < length xs"
  proof (rule ccontr)
    assume "\<not> n < length xs"
    with assms show False by simp
  qed
  from Cons_nth_drop_Suc [OF lt] assms show "xs ! n = y" by simp
qed

lemma runeStack_Push_Cons: "runeStack_Push r s = r # s"
  by (cases s) (simp_all add: runeStack_Push_def)

lemma unit_width: "u \<in> set (runes s) \<Longrightarrow> 1 \<le> snd u"
proof (induction s rule: runes.induct)
  case (1 s)
  show ?case
  proof (cases "s = []")
    case True
    with 1(2) show ?thesis by simp
  next
    case False
    with 1 DecodeRuneInString_width [OF False] show ?thesis
      by (auto simp: runes_nonempty)
  qed
qed

lemma journal_Next:
  assumes J: "journal l n k" and N: "Next l = Inr (r, l')"
  shows "\<exists>n' k'. journal l' n' k'"
proof -
  define U where "U = runes (drop (nat (L.Start l)) (Input l))"
  define str where "str = drop (nat (Position l)) (Input l)"
  note b = journal_bounds [OF J]
  have rest: "runes str = drop n U"
    unfolding str_def U_def by (rule journal_rest [OF J])
  from J have n: "n \<le> length U"
    and pos: "Position l = L.Start l + sum_list (map snd (take n U))"
    and rew: "Rewind l = replicate k EOFToken @ rev (map fst (take n U))"
    and k: "k = 0 \<or> n = length U"
    and enc: "list_all (\<lambda>u. RuneLen (fst u) = snd u) U"
    by (simp_all add: journal_def Let_def U_def)
  show ?thesis
  proof (cases "str = []")
    case True
    with N b have l': "l' = l\<lparr>Position := Position l + 0, Rewind := EOFToken # Rewind l\<rparr>"
      by (simp add: Next_def slice_def str_def runeStack_Push_Cons)
    from True rest n have "n = length U" by simp
    with b pos rew enc have "journal l' n (Suc k)"
      by (simp add: l' journal_def Let_def U_def [symmetric])
    then show ?thesis by blast
  next
    case False
    with N b have l': "l' = l\<lparr>Position := Position l + snd (DecodeRuneInString str),
        Rewind := fst (DecodeRuneInString str) # Rewind l\<rparr>"
      by (auto simp: Next_def slice_def str_def runeStack_Push_Cons split: prod.splits)
    from False rest have "drop n U = DecodeRuneInString str # runes (drop (nat (snd (DecodeRuneInString str))) str)"
      by (simp add: runes_nonempty)
    then have lt: "n < length U" and nth: "U ! n = DecodeRuneInString str"
      by (rule drop_eq_ConsD)+
    with k have k0: "k = 0" by simp
    have tk: "take (Suc n) U = take n U @ [U ! n]"
      using lt by (rule take_Suc_conv_app_nth)
    from b pos rew enc lt have "journal l' (Suc n) 0"
      by (simp add: l' journal_def Let_def U_def [symmetric] tk nth k0)
    then show ?thesis by blast
  qed
qed

lemma journal_Backup:
  assumes J: "journal l n k"
  shows "\<exists>n' k'. journal (snd (Backup l)) n' k'"
proof -
  define U where "U = runes (drop (nat (L.Start l)) (Input l))"
  from J have st: "0 \<le> L.Start l" "L.Start l \<le> int (length (Input l))"
    and n: "n \<le> length U"
    and pos: "Position l = L.Start l + sum_list (map snd (take n U))"
    and rew: "Rewind l = replicate k EOFToken @ rev (map fst (take n U))"
    and k: "k = 0 \<or> n = length U"
    and enc: "list_all (\<lambda>u. RuneLen (fst u) = snd u) U"
    by (simp_all add: journal_def Let_def U_def)
  consider (sentinel) k' where "k = Suc k'" | (empty) "k = 0" "n = 0" 
    | (unit) n' where "k = 0" "n = Suc n'"
    by (cases k; cases n) auto
  then show ?thesis
  proof cases
    case sentinel
    with rew have "Backup l = (False, l\<lparr>Rewind := replicate k' EOFToken @ rev (map fst (take n U))\<rparr>)"
      by (simp add: Backup_def runeStack_Pop_def)
    moreover from sentinel k st n pos enc
    have "journal (l\<lparr>Rewind := replicate k' EOFToken @ rev (map fst (take n U))\<rparr>) n k'"
      by (simp add: journal_def Let_def U_def [symmetric])
    ultimately show ?thesis by (metis snd_conv)
  next
    case empty
    with rew have "Backup l = (False, l\<lparr>Rewind := []\<rparr>)"
      by (simp add: Backup_def runeStack_Pop_def EOFToken_def)
    moreover from empty st n pos enc have "journal (l\<lparr>Rewind := []\<rparr>) 0 0"
      by (simp add: journal_def Let_def U_def [symmetric])
    ultimately show ?thesis by (metis snd_conv)
  next
    case unit
    with n have lt: "n' < length U" by simp
    define r where "r = fst (U ! n')"
    define w where "w = snd (U ! n')"
    have tk: "take (Suc n') U = take n' U @ [U ! n']"
      using lt by (rule take_Suc_conv_app_nth)
    from lt have mem: "U ! n' \<in> set U" by simp
    with enc have rl: "RuneLen r = w"
      by (simp add: list_all_iff r_def w_def)
    from mem have "1 \<le> w"
      unfolding w_def U_def by (rule unit_width)
    with rl have r0: "r > EOFToken"
      by (simp add: RuneLen_def EOFToken_def split: if_splits)
    have nonneg: "0 \<le> sum_list (map snd (take n' U))"
      unfolding U_def by (rule widths_nonneg)
    from unit rew have top: "Rewind l = r # rev (map fst (take n' U))"
      by (simp add: tk r_def)
    from unit pos have pos': "Position l = L.Start l + sum_list (map snd (take n' U)) + w"
      by (simp add: tk w_def)
    from top r0 rl pos' nonneg
    have "Backup l = (False, l\<lparr>Rewind := rev (map fst (take n' U)),
        Position := L.Start l + sum_list (map snd (take n' U))\<rparr>)"
      by (simp add: Backup_def runeStack_Pop_def Let_def)
    moreover from st lt enc
    have "journal (l\<lparr>Rewind := rev (map fst (take n' U)),
        Position := L.Start l + sum_list (map snd (take n' U))\<rparr>) n' 0"
      by (simp add: journal_def Let_def U_def [symmetric])
    ultimately show ?thesis by (metis snd_conv)
  qed
qed

lemma journal_IgnoreCharacter:
  assumes J: "journal l n k" and top: "Rewind l = r # rest" "r \<noteq> EOFToken"
    and IC: "IgnoreCharacter l = Inr l'"
  shows "\<exists>n' k'. journal l' n' k'"
proof -
  define S where "S = drop (nat (L.Start l)) (Input l)"
  define U where "U = runes S"
  note b = journal_bounds [OF J]
  from J have n: "n \<le> length U"
    and pos: "Position l = L.Start l + sum_list (map snd (take n U))"
    and rew: "Rewind l = replicate k EOFToken @ rev (map fst (take n U))"
    and enc: "list_all (\<lambda>u. RuneLen (fst u) = snd u) U"
    by (simp_all add: journal_def Let_def U_def S_def)
  from rew top have k0: "k = 0"
    by (cases k) auto
  with rew top obtain n' where n': "n = Suc n'"
    by (cases n) auto
  with n have lt: "n' < length U" by simp
  define w where "w = snd (U ! n')"
  define A where "A = sum_list (map snd (take n' U))"
  have tk: "take (Suc n') U = take n' U @ [U ! n']"
    using lt by (rule take_Suc_conv_app_nth)
  from rew top k0 n' have r: "r = fst (U ! n')" and rest: "rest = rev (map fst (take n' U))"
    by (simp_all add: tk)
  from lt have mem: "U ! n' \<in> set U" by simp
  with enc have rl: "RuneLen r = w"
    by (simp add: list_all_iff r w_def)
  from mem have w1: "1 \<le> w"
    unfolding w_def U_def by (rule unit_width)
  have A0: "0 \<le> A"
    unfolding A_def U_def by (rule widths_nonneg)
  from pos n' have P: "Position l = L.Start l + A + w"
    by (simp add: tk A_def w_def)
  have total: "sum_list (map snd (take (Suc n') U)) = A + w"
    by (simp add: tk A_def w_def)
  define a where "a = take (nat A) S"
  define c where "c = drop (nat (A + w)) S"
  have ra: "runes a = take n' U"
    unfolding a_def A_def U_def by (rule runes_take)
  have rc: "runes c = drop (Suc n') U"
    unfolding c_def total [symmetric] U_def by (rule runes_drop)
  from enc have "list_all (\<lambda>u. RuneLen (fst u) = snd u) (take n' U)"
    by (auto simp: list_all_iff dest: in_set_takeD)
  then have wa: "well_encoded a"
    by (simp add: well_encoded_def ra)
  have U': "runes (a @ c) = take n' U @ drop (Suc n') U"
    using runes_append [OF wa] by (simp add: ra rc)
  define inp where "inp = take (nat (L.Start l + A)) (Input l) @ drop (nat (L.Start l + A + w)) (Input l)"
  from top rl P b A0 w1 IC have l': "l' = l\<lparr>Rewind := rest, Input := inp, Position := L.Start l + A\<rparr>"
    by (simp add: IgnoreCharacter_def runeStack_Pop_def slice_def Let_def inp_def)
  have "drop (nat (L.Start l)) (take (nat (L.Start l + A)) (Input l)) = a"
    using b A0 by (simp add: a_def S_def drop_take nat_add_distrib)
  moreover have "drop (nat (L.Start l + A + w)) (Input l) = c"
    using b A0 w1 by (simp add: c_def S_def nat_add_distrib ac_simps)
  moreover have "nat (L.Start l) \<le> length (take (nat (L.Start l + A)) (Input l))"
    using b A0 P w1 by simp
  ultimately have S': "drop (nat (L.Start l)) inp = a @ c"
    by (simp add: inp_def)
  have len: "L.Start l \<le> int (length inp)"
    using b A0 P w1 by (simp add: inp_def)
  from enc have "list_all (\<lambda>u. RuneLen (fst u) = snd u) (take n' U @ drop (Suc n') U)"
    by (auto simp: list_all_iff dest: in_set_takeD in_set_dropD)
  with b len lt have "journal l' n' 0"
    by (simp add: journal_def Let_def l' S' U' rest A_def)
  then show ?thesis by blast
qed

lemma journal_boundary:
  assumes J: "journal l n k"
  shows "journal (l\<lparr>L.Start := Position l, Rewind := []\<rparr>) 0 0"
proof -
  define U where "U = runes (drop (nat (L.Start l)) (Input l))"
  note b = journal_bounds [OF J]
  have rest: "runes (drop (nat (Position l)) (Input l)) = drop n U"
    unfolding U_def by (rule journal_rest [OF J])
  from J have "list_all (\<lambda>u. RuneLen (fst u) = snd u) U"
    by (simp add: journal_def Let_def U_def)
  then have "list_all (\<lambda>u. RuneLen (fst u) = snd u) (drop n U)"
    by (auto simp: list_all_iff dest: in_set_dropD)
  with b show ?thesis
    by (simp add: journal_def Let_def rest)
qed

lemma journal_Emit:
  assumes "journal l n k" and "Emit t l = Inr l'"
  shows "journal l' 0 0"
proof -
  from assms(2) have "Input l' = Input l \<and> L.Start l' = Position l
      \<and> Position l' = Position l \<and> Rewind l' = []"
    by (auto simp: Emit_def runeStack_Clear_def Let_def split: sum.splits option.splits if_splits)
  with journal_boundary [OF assms(1)] show ?thesis
    by (simp add: journal_def)
qed

lemma journal_Ignore:
  assumes "journal l n k"
  shows "journal (Ignore l) 0 0"
  using journal_boundary [OF assms] by (simp add: Ignore_def runeStack_Clear_def)

lemma journal_RunLexer:
  assumes "journal l n k"
  shows "journal (RunLexer l) n k"
  using assms by (simp add: journal_def RunLexer_def Let_def)

lemma journal_New:
  assumes "well_encoded src"
  shows "journal (New src start) 0 0"
  using assms by (simp add: journal_def New_def well_encoded_def NewRuneStack_def)

text \<open>
  The lexers reached from a fresh lexer on \<open>src\<close> by \<open>RunLexer\<close> allocating the queue,
  by calls of \<open>Next\<close>, \<open>Backup\<close>, \<open>Emit\<close> and \<open>Ignore\<close> that return, and by calls of
  \<open>IgnoreCharacter\<close> that return and are made while the top of the rewind stack is a unit
  of the input, not the sentinel: the guard that is left to the caller.
\<close>

inductive reachable :: "string \<Rightarrow> ('s, 'w) L \<Rightarrow> bool" for src :: string where
  fresh: "reachable src (New src start)"
| alloc: "reachable src l \<Longrightarrow> reachable src (RunLexer l)"
| after_Next: "reachable src l \<Longrightarrow> Next l = Inr (r, l') \<Longrightarrow> reachable src l'"
| after_Backup: "reachable src l \<Longrightarrow> reachable src (snd (Backup l))"
| after_Emit: "reachable src l \<Longrightarrow> Emit t l = Inr l' \<Longrightarrow> reachable src l'"
| after_Ignore: "reachable src l \<Longrightarrow> reachable src (Ignore l)"
| after_IgnoreCharacter:
    "reachable src l \<Longrightarrow> Rewind l = r # rest \<Longrightarrow> r \<noteq> EOFToken
     \<Longrightarrow> IgnoreCharacter l = Inr l' \<Longrightarrow> reachable src l'"

lemma reachable_journal:
  assumes "reachable src l" and "well_encoded src"
  shows "\<exists>n k. journal l n k"
  using assms(1)
proof induction
  case (fresh start)
  from journal_New [OF assms(2)] show ?case by blast
next
  case (alloc l)
  then show ?case using journal_RunLexer by blast
next
  case (after_Next l r l')
  then show ?case using journal_Next by blast
next
  case (after_Backup l)
  then show ?case using journal_Backup by blast
next
  case (after_Emit l t l')
  then show ?case using journal_Emit by blast
next
  case (after_Ignore l)
  then show ?case using journal_Ignore by blast
next
  case (after_IgnoreCharacter l r rest l')
  then show ?case using journal_IgnoreCharacter by blast
qed

text \<open>
  \<open>Peek\<close>, \<open>PeekMany\<close>, \<open>Take\<close> and \<open>TakeMany\<close> are sequences of calls of \<open>Next\<close> and
  \<open>Backup\<close>: the lexers they return are reached as well.
\<close>

lemma reachable_Peek:
  assumes "reachable src l" and "Peek l = Inr (r, l')"
  shows "reachable src l'"
proof -
  from assms(2) obtain l1 where "Next l = Inr (r, l1)" and "l' = snd (Backup l1)"
    by (auto simp: Peek_def split: sum.splits)
  with assms(1) show ?thesis
    by (auto intro: reachable.after_Next reachable.after_Backup)
qed

lemma reachable_Take:
  assumes "reachable src l" and "Take chars l = Inr (b, l')"
  shows "reachable src l'"
proof -
  from assms(2) obtain r l1 where "Next l = Inr (r, l1)" and "l' = l1 \<or> l' = snd (Backup l1)"
    by (auto simp: Take_def split: sum.splits if_splits)
  with assms(1) show ?thesis
    by (auto intro: reachable.after_Next reachable.after_Backup)
qed

lemma reachable_TakeMany:
  assumes "reachable src l" and "TakeMany chars l = Inr l'"
  shows "reachable src l'"
  using assms
proof (induction chars l rule: TakeMany.induct)
  case (1 chars l)
  from "1.prems"(2) obtain r l1 where nx: "Next l = Inr (r, l1)"
    by (subst (asm) TakeMany.simps) (auto split: sum.splits)
  with "1.prems"(1) have r1: "reachable src l1"
    by (rule reachable.after_Next)
  show ?case
  proof (cases "ContainsRune chars r")
    case True
    with nx "1.prems"(2) have "TakeMany chars l1 = Inr l'"
      by (subst (asm) TakeMany.simps) simp
    with "1.IH" [OF nx refl True r1] show ?thesis .
  next
    case False
    with nx "1.prems"(2) have "l' = snd (Backup l1)"
      by (subst (asm) TakeMany.simps) simp
    with r1 show ?thesis
      by (simp add: reachable.after_Backup)
  qed
qed

lemma reachable_Next_times:
  assumes "reachable src l" and "Next_times i r l = Inr (r', l')"
  shows "reachable src l'"
  using assms
proof (induction i arbitrary: r l)
  case 0
  then show ?case by simp
next
  case (Suc i)
  from Suc.prems(2) obtain r1 l1 where nx: "Next l = Inr (r1, l1)"
      and rest: "Next_times i r1 l1 = Inr (r', l')"
    by (auto split: sum.splits)
  from Suc.prems(1) nx have "reachable src l1"
    by (rule reachable.after_Next)
  then show ?case using rest by (rule Suc.IH)
qed

lemma reachable_Backup_times:
  assumes "reachable src l"
  shows "reachable src (Backup_times i l)"
  using assms
  by (induction i l rule: Backup_times.induct) (auto intro: reachable.after_Backup)

lemma reachable_PeekMany:
  assumes "reachable src l" and "PeekMany n l = Inr (r, l')"
  shows "reachable src l'"
proof -
  from assms(2) obtain l1 where "Next_times (nat n) 0 l = Inr (r, l1)"
      and "l' = Backup_times (nat n) l1"
    by (auto simp: PeekMany_def split: sum.splits)
  with assms(1) show ?thesis
    by (auto intro: reachable_Next_times reachable_Backup_times)
qed

section \<open>The operations on a well-encoded input\<close>

text \<open>
  Where the invariant holds, and so in every lexer reached on a well-encoded input,
  \<open>Backup\<close> undoes the \<open>Next\<close> before it; \<open>Peek\<close> returns the unit \<open>Next\<close> returns and
  leaves the lexer as it was; \<open>TakeMany\<close> reads the longest run of accepted units ahead
  and stops before the first unit that is not accepted, or at the end of the input; and
  \<open>IgnoreCharacter\<close>, when the top of the rewind stack is a unit, removes the bytes of
  that unit, which end at the position, and nothing else.
\<close>

lemma Next_journal_eof:
  assumes J: "journal l n k" and n: "n = length (runes (drop (nat (L.Start l)) (Input l)))"
  shows "Next l = Inr (EOFToken, l\<lparr>Rewind := EOFToken # Rewind l\<rparr>)"
proof -
  note b = journal_bounds [OF J]
  from journal_rest [OF J] n have "runes (drop (nat (Position l)) (Input l)) = []"
    by simp
  then have "drop (nat (Position l)) (Input l) = []"
    by (cases "drop (nat (Position l)) (Input l) = []") (simp_all add: runes_nonempty)
  with b show ?thesis
    by (simp add: Next_def slice_def runeStack_Push_Cons)
qed

lemma Next_journal_unit:
  assumes J: "journal l n k" and n: "n < length (runes (drop (nat (L.Start l)) (Input l)))"
  shows "Next l = Inr (fst (runes (drop (nat (L.Start l)) (Input l)) ! n),
      l\<lparr>Position := Position l + snd (runes (drop (nat (L.Start l)) (Input l)) ! n),
        Rewind := fst (runes (drop (nat (L.Start l)) (Input l)) ! n) # Rewind l\<rparr>)"
proof -
  define U where "U = runes (drop (nat (L.Start l)) (Input l))"
  define str where "str = drop (nat (Position l)) (Input l)"
  note b = journal_bounds [OF J]
  have rest: "runes str = drop n U"
    unfolding str_def U_def by (rule journal_rest [OF J])
  from n have "drop n U \<noteq> []" by (simp add: U_def)
  with rest have ne: "str \<noteq> []" by auto
  with rest have "drop n U = DecodeRuneInString str # runes (drop (nat (snd (DecodeRuneInString str))) str)"
    by (simp add: runes_nonempty)
  then have "U ! n = DecodeRuneInString str"
    by (rule drop_eq_ConsD)
  with b ne show ?thesis
    unfolding U_def [symmetric]
    by (auto simp: Next_def slice_def str_def runeStack_Push_Cons split: prod.splits)
qed

lemma Backup_undoes_Next:
  assumes J: "journal l n k" and N: "Next l = Inr (r, l1)"
  shows "Backup l1 = (False, l)"
proof -
  define U where "U = runes (drop (nat (L.Start l)) (Input l))"
  note b = journal_bounds [OF J]
  from J have n: "n \<le> length U"
    and enc: "list_all (\<lambda>u. RuneLen (fst u) = snd u) U"
    by (simp_all add: journal_def Let_def U_def)
  show ?thesis
  proof (cases "n = length U")
    case True
    with Next_journal_eof [OF J] N have "l1 = l\<lparr>Rewind := EOFToken # Rewind l\<rparr>"
      by (simp add: U_def)
    then show ?thesis
      by (simp add: Backup_def runeStack_Pop_def)
  next
    case False
    with n have lt: "n < length U" by simp
    with Next_journal_unit [OF J] N
    have l1: "l1 = l\<lparr>Position := Position l + snd (U ! n), Rewind := fst (U ! n) # Rewind l\<rparr>"
      by (simp add: U_def)
    from lt have mem: "U ! n \<in> set U" by simp
    with enc have rl: "RuneLen (fst (U ! n)) = snd (U ! n)"
      by (simp add: list_all_iff)
    from mem have "1 \<le> snd (U ! n)"
      unfolding U_def by (rule unit_width)
    with rl have "fst (U ! n) > EOFToken"
      by (simp add: RuneLen_def EOFToken_def split: if_splits)
    with rl b show ?thesis
      by (simp add: l1 Backup_def runeStack_Pop_def Let_def)
  qed
qed

lemma Peek_journal:
  assumes J: "journal l n k"
  shows "\<exists>r l1. Next l = Inr (r, l1) \<and> Peek l = Inr (r, l)"
proof -
  from J obtain r l1 where N: "Next l = Inr (r, l1)"
    using Next_journal_eof [OF J] Next_journal_unit [OF J]
    by (cases "n < length (runes (drop (nat (L.Start l)) (Input l)))")
       (auto simp: journal_def Let_def)
  with Backup_undoes_Next [OF J N] show ?thesis
    by (simp add: Peek_def)
qed

lemma journal_after_unit:
  assumes J: "journal l n k" and lt: "n < length (runes (drop (nat (L.Start l)) (Input l)))"
  shows "journal (l\<lparr>Position := Position l + snd (runes (drop (nat (L.Start l)) (Input l)) ! n),
        Rewind := fst (runes (drop (nat (L.Start l)) (Input l)) ! n) # Rewind l\<rparr>) (Suc n) 0"
proof -
  define U where "U = runes (drop (nat (L.Start l)) (Input l))"
  from J lt have "k = 0"
    by (auto simp: journal_def Let_def)
  moreover have "take (Suc n) U = take n U @ [U ! n]"
    using lt unfolding U_def by (rule take_Suc_conv_app_nth)
  ultimately show ?thesis
    using J lt by (simp add: journal_def Let_def U_def [symmetric])
qed

lemma TakeMany_journal:
  assumes "journal l n k"
  shows "TakeMany chars l =
    Inr (l\<lparr>Position := Position l + sum_list (map snd
              (takeWhile (\<lambda>u. ContainsRune chars (fst u))
                 (drop n (runes (drop (nat (L.Start l)) (Input l)))))),
           Rewind := rev (map fst
              (takeWhile (\<lambda>u. ContainsRune chars (fst u))
                 (drop n (runes (drop (nat (L.Start l)) (Input l)))))) @ Rewind l\<rparr>)"
  using assms
proof (induction chars l arbitrary: n k rule: TakeMany.induct)
  case (1 chars l)
  define U where "U = runes (drop (nat (L.Start l)) (Input l))"
  note J = "1.prems"
  from J have n: "n \<le> length U"
    by (simp add: journal_def Let_def U_def)
  show ?case
  proof (cases "n = length U")
    case True
    from Next_journal_eof [OF J] True
    have N: "Next l = Inr (EOFToken, l\<lparr>Rewind := EOFToken # Rewind l\<rparr>)"
      by (simp add: U_def)
    from Backup_undoes_Next [OF J N] N True show ?thesis
      by (subst TakeMany.simps) (simp add: ContainsRune_EOFToken U_def [symmetric])
  next
    case False
    with n have lt: "n < length U" by simp
    define r where "r = fst (U ! n)"
    define l1 where "l1 = l\<lparr>Position := Position l + snd (U ! n), Rewind := r # Rewind l\<rparr>"
    from Next_journal_unit [OF J] lt have N: "Next l = Inr (r, l1)"
      by (simp add: U_def r_def l1_def)
    have dn: "drop n U = U ! n # drop (Suc n) U"
      using lt by (simp add: Cons_nth_drop_Suc)
    show ?thesis
    proof (cases "ContainsRune chars r")
      case True
      from journal_after_unit [OF J] lt have J1: "journal l1 (Suc n) 0"
        by (simp add: U_def l1_def r_def)
      have same: "runes (drop (nat (L.Start l1)) (Input l1)) = U"
        by (simp add: l1_def U_def)
      from "1.IH" [OF N refl True J1] N True show ?thesis
        by (subst TakeMany.simps)
           (simp add: same U_def [symmetric] dn r_def [symmetric], simp add: l1_def r_def)
    next
      case False
      from Backup_undoes_Next [OF J N] N False show ?thesis
        by (subst TakeMany.simps) (simp add: U_def [symmetric] dn r_def [symmetric])
    qed
  qed
qed

lemma IgnoreCharacter_journal:
  assumes J: "journal l n k" and top: "Rewind l = r # rest" "r \<noteq> EOFToken"
  shows "IgnoreCharacter l =
      Inr (l\<lparr>Rewind := rest,
             Input := take (nat (Position l - RuneLen r)) (Input l) @ drop (nat (Position l)) (Input l),
             Position := Position l - RuneLen r\<rparr>)"
    and "DecodeRuneInString (drop (nat (Position l - RuneLen r)) (Input l)) = (r, RuneLen r)"
    and "L.Start l \<le> Position l - RuneLen r"
proof -
  define U where "U = runes (drop (nat (L.Start l)) (Input l))"
  note b = journal_bounds [OF J]
  from J have n: "n \<le> length U"
    and pos: "Position l = L.Start l + sum_list (map snd (take n U))"
    and rew: "Rewind l = replicate k EOFToken @ rev (map fst (take n U))"
    and enc: "list_all (\<lambda>u. RuneLen (fst u) = snd u) U"
    by (simp_all add: journal_def Let_def U_def)
  from rew top have k0: "k = 0"
    by (cases k) auto
  with rew top obtain n' where n': "n = Suc n'"
    by (cases n) auto
  with n have lt: "n' < length U" by simp
  define w where "w = snd (U ! n')"
  define A where "A = sum_list (map snd (take n' U))"
  have tk: "take (Suc n') U = take n' U @ [U ! n']"
    using lt by (rule take_Suc_conv_app_nth)
  from rew top k0 n' have r: "r = fst (U ! n')"
    by (simp add: tk)
  from lt have mem: "U ! n' \<in> set U" by simp
  with enc have rl: "RuneLen r = w"
    by (simp add: list_all_iff r w_def)
  from mem have w1: "1 \<le> w"
    unfolding w_def U_def by (rule unit_width)
  have A0: "0 \<le> A"
    unfolding A_def U_def by (rule widths_nonneg)
  from pos n' have P: "Position l = L.Start l + A + w"
    by (simp add: tk A_def w_def)
  from top rl P b A0 w1
  show "IgnoreCharacter l =
      Inr (l\<lparr>Rewind := rest,
             Input := take (nat (Position l - RuneLen r)) (Input l) @ drop (nat (Position l)) (Input l),
             Position := Position l - RuneLen r\<rparr>)"
    by (simp add: IgnoreCharacter_def runeStack_Pop_def slice_def Let_def)
  from P A0 rl show "L.Start l \<le> Position l - RuneLen r"
    by simp
  have "drop (nat (Position l - RuneLen r)) (Input l)
      = drop (nat A) (drop (nat (L.Start l)) (Input l))"
    using P rl b A0 by (simp add: nat_add_distrib ac_simps)
  then have "runes (drop (nat (Position l - RuneLen r)) (Input l)) = drop n' U"
    unfolding A_def U_def by (simp only: runes_drop)
  also have "\<dots> = U ! n' # drop (Suc n') U"
    using lt by (simp add: Cons_nth_drop_Suc)
  finally have "DecodeRuneInString (drop (nat (Position l - RuneLen r)) (Input l)) = U ! n'"
    by (cases "drop (nat (Position l - RuneLen r)) (Input l) = []")
       (simp_all add: runes_nonempty)
  moreover have "U ! n' = (r, RuneLen r)"
    unfolding rl unfolding r w_def by simp
  ultimately show "DecodeRuneInString (drop (nat (Position l - RuneLen r)) (Input l)) = (r, RuneLen r)"
    by simp
qed

section \<open>The claims\<close>

lemmas eval_defs = New_def Next_def Backup_def Peek_def slice_def DecodeRuneInString_def
  first_def acceptRanges_def RuneError_def RuneLen_def MaxRune_def EOFToken_def
  runeStack_Push_def runeStack_Pop_def NewRuneStack_def NewStateStack_def Let_def

subsection \<open>The cursor\<close>

text \<open>
  What \<open>Backup\<close> computes, the top entry of the rewind stack being a unit \<open>Next\<close> can
  have pushed, the sentinel or a decoded rune. The width it moves back by is the one
  \<open>utf8.RuneLen\<close> gives for the popped rune.
\<close>

lemma Backup_cases:
  assumes "case Rewind l of [] \<Rightarrow> True | r # rest \<Rightarrow> EOFToken \<le> r"
  shows "Backup l =
    (case Rewind l of
       [] \<Rightarrow> (False, l)
     | r # rest \<Rightarrow>
         if r = EOFToken then (False, l\<lparr>Rewind := rest\<rparr>)
         else if Position l - RuneLen r < L.Start l
           then (True, l\<lparr>Rewind := rest, Position := L.Start l\<rparr>)
           else (False, l\<lparr>Rewind := rest, Position := Position l - RuneLen r\<rparr>))"
proof (cases "Rewind l")
  case Nil
  then have "l\<lparr>Rewind := []\<rparr> = l" by (cases l) simp
  with Nil show ?thesis
    by (simp add: Backup_def runeStack_Pop_def EOFToken_def)
next
  case (Cons r rest)
  with assms have "EOFToken \<le> r" by simp
  with Cons show ?thesis
    by (auto simp: Backup_def runeStack_Pop_def Let_def)
qed

text \<open>
  C1. The width \<open>Backup\<close> moves back by is not the width of the unit in the input where
  the unit is a byte that starts no valid encoding. On the Go string \<open>"ab\xff"\<close>, after
  \<open>a\<close> and \<open>b\<close> have been read and ignored, the start of the lexeme and the position
  are 2. \<open>Next\<close> reads the byte \<open>0xff\<close> as U+FFFD and moves the position to 3. The
  \<open>Backup\<close> that follows moves back by 3, below the start, sets the position to the start
  and returns true: an overflow is reported for taking back the one unit that was read.
  Without the \<open>Ignore\<close>, the same \<open>Backup\<close> returns false and leaves the position at 0,
  not at 2.
\<close>

theorem C1_backup_invalid_byte:
  "Ignore ((New (''ab'' @ [CHR 0xFF]) None)\<lparr>Position := 2, Rewind := [98, 97]\<rparr>)
     = (New (''ab'' @ [CHR 0xFF]) None)\<lparr>L.Start := 2, Position := 2, Rewind := []\<rparr>
   \<and> Next ((New (''ab'' @ [CHR 0xFF]) None)\<lparr>L.Start := 2, Position := 2, Rewind := []\<rparr>)
     = Inr (65533, (New (''ab'' @ [CHR 0xFF]) None)\<lparr>L.Start := 2, Position := 3, Rewind := [65533]\<rparr>)
   \<and> Backup ((New (''ab'' @ [CHR 0xFF]) None)\<lparr>L.Start := 2, Position := 3, Rewind := [65533]\<rparr>)
     = (True, (New (''ab'' @ [CHR 0xFF]) None)\<lparr>L.Start := 2, Position := 2, Rewind := []\<rparr>)
   \<and> Backup ((New (''ab'' @ [CHR 0xFF]) None)\<lparr>Position := 3, Rewind := [65533, 98, 97]\<rparr>)
     = (False, (New (''ab'' @ [CHR 0xFF]) None)\<lparr>Position := 0, Rewind := [98, 97]\<rparr>)"
  by (simp add: Ignore_def runeStack_Clear_def eval_defs)

text \<open>
  C10. Popping the empty rewind stack returns \<open>rune(EOFToken)\<close>, which is -1, the value
  \<open>Next\<close> returns and pushes at the end of the input. So in every lexer whose position is
  the end of the input, \<open>Next\<close> returns the sentinel and pushes it without moving, and the
  \<open>Backup\<close> that follows returns false and gives the lexer back as it was before the
  \<open>Next\<close>: position and start unchanged, as \<open>Backup\<close> on an empty stack leaves them.
\<close>

theorem C10_backup_after_eof:
  assumes "Position l = int (length (Input l))"
  shows "runeStack_Pop NewRuneStack = (EOFToken, NewRuneStack) \<and> EOFToken = - 1
    \<and> Next l = Inr (EOFToken, l\<lparr>Rewind := EOFToken # Rewind l\<rparr>)
    \<and> Backup (l\<lparr>Rewind := EOFToken # Rewind l\<rparr>) = (False, l)
    \<and> Backup (l\<lparr>Rewind := []\<rparr>) = (False, l\<lparr>Rewind := []\<rparr>)"
  using assms
  by (simp add: runeStack_Pop_def NewRuneStack_def EOFToken_def Next_def slice_def
      runeStack_Push_def Backup_def split: list.splits)

theorem C10_backup_after_eof_witness:
  "Position ((New ''ab'' None :: (unit, unit) L)\<lparr>Position := 2, Rewind := [98, 97]\<rparr>)
     = int (length (Input ((New ''ab'' None :: (unit, unit) L)\<lparr>Position := 2, Rewind := [98, 97]\<rparr>)))
   \<and> Next ((New ''ab'' None :: (unit, unit) L)\<lparr>Position := 2, Rewind := [98, 97]\<rparr>)
     = Inr (- 1, (New ''ab'' None)\<lparr>Position := 2, Rewind := [- 1, 98, 97]\<rparr>)
   \<and> Backup ((New ''ab'' None :: (unit, unit) L)\<lparr>Position := 2, Rewind := [- 1, 98, 97]\<rparr>)
     = (False, (New ''ab'' None)\<lparr>Position := 2, Rewind := [98, 97]\<rparr>)"
  using C10_backup_after_eof
    [of "(New ''ab'' None :: (unit, unit) L)\<lparr>Position := 2, Rewind := [98, 97]\<rparr>"]
  by (simp add: New_def EOFToken_def)

subsection \<open>Emission and the token queue\<close>

text \<open>
  C2. In every lexer with \<open>0 \<le> Start \<le> Position \<le> len(Input)\<close> and an open token
  queue whose buffer has room, \<open>Emit t\<close> sends exactly one token: its type is \<open>t\<close>, its
  value is the slice of the input from \<open>Start\<close> to \<open>Position\<close>, its start and end are
  \<open>Start\<close> and \<open>Position\<close>. Then \<open>Start\<close> is \<open>Position\<close> and the rewind stack is empty;
  nothing else changes. The token is the last one of the buffer: the consumer receives it
  from \<open>NextToken\<close> after the tokens that were in the buffer before, at once when there
  were none.
\<close>

theorem C2_emit:
  assumes "0 \<le> L.Start l" and "L.Start l \<le> Position l"
    and "Position l \<le> int (length (Input l))"
    and "Tokens l = Some c" and "\<not> closed c" and "int (length (buffer c)) < cap c"
  shows "Emit t l =
     Inr (l\<lparr>Tokens := Some (c\<lparr>buffer := buffer c @
               [\<lparr>Type = t,
                 Value = take (nat (Position l) - nat (L.Start l)) (drop (nat (L.Start l)) (Input l)),
                 Start = L.Start l, End = Position l\<rparr>]\<rparr>),
            L.Start := Position l, Rewind := []\<rparr>)
   \<and> NextToken (l\<lparr>Tokens := Some (c\<lparr>buffer := buffer c @
               [\<lparr>Type = t,
                 Value = take (nat (Position l) - nat (L.Start l)) (drop (nat (L.Start l)) (Input l)),
                 Start = L.Start l, End = Position l\<rparr>]\<rparr>),
            L.Start := Position l, Rewind := []\<rparr>)
     = (case buffer c of
          [] \<Rightarrow>
            Inr ((Some \<lparr>Type = t,
                 Value = take (nat (Position l) - nat (L.Start l)) (drop (nat (L.Start l)) (Input l)),
                 Start = L.Start l, End = Position l\<rparr>, False),
              l\<lparr>Tokens := Some (c\<lparr>buffer := []\<rparr>), L.Start := Position l, Rewind := []\<rparr>)
        | old # rest \<Rightarrow>
            Inr ((Some old, False),
              l\<lparr>Tokens := Some (c\<lparr>buffer := rest @
               [\<lparr>Type = t,
                 Value = take (nat (Position l) - nat (L.Start l)) (drop (nat (L.Start l)) (Input l)),
                 Start = L.Start l, End = Position l\<rparr>]\<rparr>),
                L.Start := Position l, Rewind := []\<rparr>))"
  using assms
  by (simp add: Emit_def Current_def slice_def runeStack_Clear_def NextToken_def
      split: list.splits)

theorem C2_emit_witness:
  "Emit 7 ((New ''12+34'' None :: (unit, unit) L)
            \<lparr>L.Start := 2, Position := 3, Tokens := Some (make_chan 2), Rewind := [43]\<rparr>)
     = Inr ((New ''12+34'' None)
            \<lparr>L.Start := 3, Position := 3,
             Tokens := Some \<lparr>cap = 2, buffer = [\<lparr>Type = 7, Value = ''+'', Start = 2, End = 3\<rparr>],
                             closed = False\<rparr>,
             Rewind := []\<rparr>)
   \<and> NextToken ((New ''12+34'' None :: (unit, unit) L)
            \<lparr>L.Start := 3, Position := 3,
             Tokens := Some \<lparr>cap = 2, buffer = [\<lparr>Type = 7, Value = ''+'', Start = 2, End = 3\<rparr>],
                             closed = False\<rparr>,
             Rewind := []\<rparr>)
     = Inr ((Some \<lparr>Type = 7, Value = ''+'', Start = 2, End = 3\<rparr>, False),
            (New ''12+34'' None)
            \<lparr>L.Start := 3, Position := 3,
             Tokens := Some \<lparr>cap = 2, buffer = [], closed = False\<rparr>,
             Rewind := []\<rparr>)"
  using C2_emit [of "(New ''12+34'' None :: (unit, unit) L)
            \<lparr>L.Start := 2, Position := 3, Tokens := Some (make_chan 2), Rewind := [43]\<rparr>"
          "make_chan 2" 7]
  by (simp add: New_def make_chan_def)

text \<open>
  On a buffer that is full the send waits for the consumer: \<open>Emit\<close> does not return, no
  token is sent and the lexer is not changed.
\<close>

lemma Emit_waits_on_full:
  assumes "0 \<le> L.Start l" and "L.Start l \<le> Position l"
    and "Position l \<le> int (length (Input l))"
    and "Tokens l = Some c" and "\<not> closed c" and "cap c \<le> int (length (buffer c))"
  shows "Emit t l = Inl SendWaits"
  using assms
  by (simp add: Emit_def Current_def slice_def)

text \<open>
  C9. Both run-mode selectors allocate the token queue with capacity
  \<open>max 1 (len(Input) / 2)\<close>, the division being that of the integers: \<open>RunLexer\<close> leaves
  the lexer with a fresh queue of that capacity, and \<open>RunLexerSync\<close> is the run loop on
  the lexer with a fresh queue of that capacity. For an input of length zero the capacity
  is 1.
\<close>

theorem C9_queue_capacity:
  "Tokens (RunLexer l) = Some (make_chan (max 1 (int (length (Input l)) div 2)))
   \<and> RunLexerSync table l w =
       run table (l\<lparr>Tokens := Some (make_chan (max 1 (int (length (Input l)) div 2)))\<rparr>) w
   \<and> cap (make_chan (max 1 (int (length (Input l)) div 2))) = max 1 (int (length (Input l)) div 2)
   \<and> Tokens (RunLexer (New [] start)) = Some \<lparr>cap = 1, buffer = [], closed = False\<rparr>
   \<and> RunLexerSync table (New [] start) w =
       run table ((New [] start)\<lparr>Tokens := Some \<lparr>cap = 1, buffer = [], closed = False\<rparr>\<rparr>) w"
  by (simp add: RunLexer_def RunLexerSync_def Let_def max_def make_chan_def New_def)

subsection \<open>Reported errors\<close>

text \<open>
  C4. With an error handler registered, \<open>Error e\<close> records \<open>e\<close> as the last error, calls
  the handler with \<open>e\<close>, and returns; a run whose current state function ends with this
  call goes on with the state that function returns. With no handler, \<open>Error e\<close> panics
  with \<open>e\<close>, and a run whose current state function makes the call ends in that panic: the
  loop takes no further step, so no further token is sent.
\<close>

theorem C4_error:
  assumes "table f l w =
     (case Error e l w of Inl x \<Rightarrow> Inl x | Inr (l', w') \<Rightarrow> Inr (nxt, l', w'))"
  shows "case ErrorHandler l of
      Some h \<Rightarrow>
        Error e l w = Inr (l\<lparr>Err := Some e\<rparr>, h e w)
        \<and> run_loop table (Some f) l w = run_loop table nxt (l\<lparr>Err := Some e\<rparr>) (h e w)
    | None \<Rightarrow>
        Error e l w = Inl (Panic e)
        \<and> run_loop table (Some f) l w = Some (Inl (Panic e))"
  using assms
  by (subst (1 2) run_loop.simps) (simp add: Error_def split: option.splits)

theorem C4_error_witness:
  "Error ''bad'' ((New ''a'' (Some ()) :: (unit, string list) L)
        \<lparr>Tokens := Some (make_chan 1), ErrorHandler := Some (\<lambda>e w. w @ [e])\<rparr>) []
     = Inr ((New ''a'' (Some ()))
        \<lparr>Err := Some ''bad'', Tokens := Some (make_chan 1),
         ErrorHandler := Some (\<lambda>e w. w @ [e])\<rparr>, [''bad''])
   \<and> run_loop (\<lambda>f l w. case Error ''bad'' l w of Inl x \<Rightarrow> Inl x
                                | Inr (l', w') \<Rightarrow> Inr (None, l', w'))
        (Some ()) ((New ''a'' (Some ()) :: (unit, string list) L)
        \<lparr>Tokens := Some (make_chan 1), ErrorHandler := Some (\<lambda>e w. w @ [e])\<rparr>) []
     = Some (Inr ((New ''a'' (Some ()))
        \<lparr>Err := Some ''bad'', Tokens := Some \<lparr>cap = 1, buffer = [], closed = True\<rparr>,
         ErrorHandler := Some (\<lambda>e w. w @ [e])\<rparr>, [''bad'']))
   \<and> Error ''bad'' ((New ''a'' (Some ()) :: (unit, string list) L)
        \<lparr>Tokens := Some (make_chan 1)\<rparr>) []
     = Inl (Panic ''bad'')
   \<and> run_loop (\<lambda>f l w. case Error ''bad'' l w of Inl x \<Rightarrow> Inl x
                                | Inr (l', w') \<Rightarrow> Inr (None, l', w'))
        (Some ()) ((New ''a'' (Some ()) :: (unit, string list) L)
        \<lparr>Tokens := Some (make_chan 1)\<rparr>) []
     = Some (Inl (Panic ''bad''))"
proof -
  let ?table = "\<lambda>(f :: unit) (l :: (unit, string list) L) (w :: string list).
      case Error ''bad'' l w of Inl x \<Rightarrow> Inl x | Inr (l', w') \<Rightarrow> Inr (None, l', w')"
  let ?h = "\<lambda>(e :: string) (w :: string list). w @ [e]"
  let ?lh = "(New ''a'' (Some ()) :: (unit, string list) L)
        \<lparr>Tokens := Some (make_chan 1), ErrorHandler := Some ?h\<rparr>"
  let ?ln = "(New ''a'' (Some ()) :: (unit, string list) L)\<lparr>Tokens := Some (make_chan 1)\<rparr>"
  have end_of_run: "run_loop ?table None l w
      = (case close (Tokens l) of Inl e \<Rightarrow> Some (Inl e) | Inr c \<Rightarrow> Some (Inr (l\<lparr>Tokens := c\<rparr>, w)))"
    for l w
    by (subst run_loop.simps) simp
  from C4_error [where table = ?table and f = "()" and l = ?lh and w = "[]" and e = "''bad''" and nxt = None]
    C4_error [where table = ?table and f = "()" and l = ?ln and w = "[]" and e = "''bad''" and nxt = None]
  show ?thesis
    by (simp add: end_of_run New_def make_chan_def close_def)
qed

subsection \<open>The rewind stack\<close>

text \<open>
  C3, as the claim states it, fails: \<open>Next\<close> at the end of the input pushes the
  end-of-input sentinel and reads no unit. On the empty input the lexer reached by one
  \<open>Next\<close> has an entry in its rewind stack, the position it had before, and the empty
  lexeme.
\<close>

theorem C3_rewind_journal_counterexample:
  "reachable [] ((New [] None :: (unit, unit) L)\<lparr>Rewind := [EOFToken]\<rparr>)
   \<and> Next (New [] None :: (unit, unit) L) = Inr (EOFToken, (New [] None)\<lparr>Rewind := [EOFToken]\<rparr>)
   \<and> Rewind (New [] None :: (unit, unit) L) = []
   \<and> Position ((New [] None :: (unit, unit) L)\<lparr>Rewind := [EOFToken]\<rparr>)
       = Position (New [] None :: (unit, unit) L)
   \<and> Current ((New [] None :: (unit, unit) L)\<lparr>Rewind := [EOFToken]\<rparr>) = Inr []"
proof -
  have step: "Next (New [] None :: (unit, unit) L) = Inr (EOFToken, (New [] None)\<lparr>Rewind := [EOFToken]\<rparr>)"
    by (simp add: eval_defs)
  from reachable.after_Next [OF reachable.fresh step] step show ?thesis
    by (simp add: New_def Current_def slice_def NewRuneStack_def)
qed

text \<open>
  C3, amended. In every lexer reached from a fresh lexer on a well-encoded input by
  \<open>Next\<close>, \<open>Backup\<close>, \<open>Emit\<close>, \<open>Ignore\<close> and guarded calls of \<open>IgnoreCharacter\<close>, the
  rewind stack holds, one entry for one unit and the last unit first, the units of the
  current lexeme, the input from \<open>Start\<close> to \<open>Position\<close>; above them it holds the
  end-of-input sentinels \<open>Next\<close> has pushed at the end of the input, which are no units
  of the input, and it holds such sentinels only while the position is the end of the input.
\<close>

theorem C3_rewind_journal:
  assumes "reachable src l" and "well_encoded src"
  shows "\<exists>k lexeme. Current l = Inr lexeme
     \<and> Rewind l = replicate k EOFToken @ rev (map fst (runes lexeme))
     \<and> list_all (\<lambda>r. r \<noteq> EOFToken) (map fst (runes lexeme))
     \<and> (k = 0 \<or> Position l = int (length (Input l)))"
proof -
  from reachable_journal [OF assms] obtain n k where J: "journal l n k" by blast
  define S where "S = drop (nat (L.Start l)) (Input l)"
  define U where "U = runes S"
  note b = journal_bounds [OF J]
  from J have n: "n \<le> length U"
    and pos: "Position l = L.Start l + sum_list (map snd (take n U))"
    and rew: "Rewind l = replicate k EOFToken @ rev (map fst (take n U))"
    and k: "k = 0 \<or> n = length U"
    and enc: "list_all (\<lambda>u. RuneLen (fst u) = snd u) U"
    by (simp_all add: journal_def Let_def U_def S_def)
  define lexeme where "lexeme = take (nat (sum_list (map snd (take n U)))) S"
  have nonneg: "0 \<le> sum_list (map snd (take n U))"
    unfolding U_def by (rule widths_nonneg)
  have "nat (Position l) - nat (L.Start l) = nat (sum_list (map snd (take n U)))"
    using b nonneg by (simp add: pos nat_add_distrib)
  with b have cur: "Current l = Inr lexeme"
    by (simp add: Current_def slice_def lexeme_def S_def)
  have units: "runes lexeme = take n U"
    unfolding lexeme_def U_def by (rule runes_take)
  have "r \<noteq> EOFToken" if "r \<in> fst ` set (take n U)" for r
  proof -
    from that obtain u where u: "u \<in> set U" "r = fst u"
      by (auto dest: in_set_takeD)
    with enc have "RuneLen r = snd u" by (simp add: list_all_iff)
    moreover from u(1) have "1 \<le> snd u" unfolding U_def by (rule unit_width)
    ultimately show ?thesis by (auto simp: RuneLen_def EOFToken_def)
  qed
  then have real: "list_all (\<lambda>r. r \<noteq> EOFToken) (map fst (runes lexeme))"
    by (simp add: units list_all_iff)
  have "Position l = int (length (Input l))" if "n = length U"
  proof -
    from that have "sum_list (map snd (take n U)) = int (length S)"
      by (simp add: U_def widths_total)
    with b show ?thesis by (simp add: pos S_def)
  qed
  with k have "k = 0 \<or> Position l = int (length (Input l))" by blast
  with cur rew units real show ?thesis by auto
qed

theorem C3_rewind_journal_witness:
  "reachable ''ab'' ((New ''ab'' None :: (unit, unit) L)\<lparr>Position := 2, Rewind := [- 1, 98, 97]\<rparr>)
   \<and> well_encoded ''ab''
   \<and> (\<exists>k lexeme.
        Current ((New ''ab'' None :: (unit, unit) L)\<lparr>Position := 2, Rewind := [- 1, 98, 97]\<rparr>)
          = Inr lexeme
        \<and> [- 1, 98, 97] = replicate k EOFToken @ rev (map fst (runes lexeme))
        \<and> list_all (\<lambda>r. r \<noteq> EOFToken) (map fst (runes lexeme))
        \<and> (k = 0 \<or> (2::int) = int (length ''ab'')))"
proof -
  let ?l0 = "New ''ab'' None :: (unit, unit) L"
  have n1: "Next ?l0 = Inr (97, ?l0\<lparr>Position := 1, Rewind := [97]\<rparr>)"
    by (simp add: eval_defs)
  have n2: "Next (?l0\<lparr>Position := 1, Rewind := [97]\<rparr>)
      = Inr (98, ?l0\<lparr>Position := 2, Rewind := [98, 97]\<rparr>)"
    by (simp add: eval_defs)
  have n3: "Next (?l0\<lparr>Position := 2, Rewind := [98, 97]\<rparr>)
      = Inr (- 1, ?l0\<lparr>Position := 2, Rewind := [- 1, 98, 97]\<rparr>)"
    by (simp add: eval_defs)
  have r: "reachable ''ab'' (?l0\<lparr>Position := 2, Rewind := [- 1, 98, 97]\<rparr>)"
    by (rule reachable.after_Next [OF reachable.after_Next [OF reachable.after_Next [OF reachable.fresh n1] n2] n3])
  have w: "well_encoded ''ab''"
    by (simp add: well_encoded_def runes.simps eval_defs)
  from C3_rewind_journal [OF r w] r w show ?thesis
    by (simp add: New_def)
qed

subsection \<open>A byte that starts no valid encoding\<close>

text \<open>
  \<open>Next\<close> moves the position by the width \<open>DecodeRuneInString\<close> returns, and pushes the
  rune only. \<open>Backup\<close> and \<open>IgnoreCharacter\<close> compute a width again from the rune, with
  \<open>utf8.RuneLen\<close>. A byte that starts no valid encoding is decoded as \<open>(RuneError, 1)\<close>,
  and \<open>utf8.RuneLen RuneError\<close> is 3: what was read as one byte is given back as three.
  The evaluations below are on the Go string \<open>"ab\xff"\<close>, the last one of C8 apart.
\<close>

text \<open>
  C5. After \<open>a\<close> and \<open>b\<close> have been read from \<open>"ab\xff"\<close> the position is 2. There
  \<open>Peek\<close> returns the unit \<open>Next\<close> returns, U+FFFD, and leaves the position at 0, not
  at 2; the \<open>Peek\<close> that follows returns \<open>a\<close>.
\<close>

theorem C5_peek_invalid_byte:
  "Next ((New (''ab'' @ [CHR 0xFF]) None)\<lparr>Position := 1, Rewind := [97]\<rparr>)
     = Inr (98, (New (''ab'' @ [CHR 0xFF]) None)\<lparr>Position := 2, Rewind := [98, 97]\<rparr>)
   \<and> Next ((New (''ab'' @ [CHR 0xFF]) None)\<lparr>Position := 2, Rewind := [98, 97]\<rparr>)
     = Inr (65533, (New (''ab'' @ [CHR 0xFF]) None)\<lparr>Position := 3, Rewind := [65533, 98, 97]\<rparr>)
   \<and> Peek ((New (''ab'' @ [CHR 0xFF]) None)\<lparr>Position := 2, Rewind := [98, 97]\<rparr>)
     = Inr (65533, (New (''ab'' @ [CHR 0xFF]) None)\<lparr>Position := 0, Rewind := [98, 97]\<rparr>)
   \<and> Peek ((New (''ab'' @ [CHR 0xFF]) None)\<lparr>Position := 0, Rewind := [98, 97]\<rparr>)
     = Inr (97, (New (''ab'' @ [CHR 0xFF]) None)\<lparr>Position := 0, Rewind := [98, 97]\<rparr>)"
  by (simp add: eval_defs)

text \<open>
  C6. On a fresh lexer over \<open>"ab\xff"\<close>, \<open>TakeMany "ab"\<close> reads \<open>a\<close> and \<open>b\<close>, then
  the unit U+FFFD of the byte \<open>0xff\<close>, which is not accepted, and backs up to the position
  0: the two accepted units are given back as well, while their entries stay in the rewind
  stack.
\<close>

theorem C6_takemany_invalid_byte:
  "TakeMany ''ab'' (New (''ab'' @ [CHR 0xFF]) None)
     = Inr ((New (''ab'' @ [CHR 0xFF]) None)\<lparr>Position := 0, Rewind := [98, 97]\<rparr>)
   \<and> Next ((New (''ab'' @ [CHR 0xFF]) None)\<lparr>Position := 2, Rewind := [98, 97]\<rparr>)
     = Inr (65533, (New (''ab'' @ [CHR 0xFF]) None)\<lparr>Position := 3, Rewind := [65533, 98, 97]\<rparr>)
   \<and> \<not> ContainsRune ''ab'' 65533"
  by (simp add: TakeMany.simps ContainsRune_def RuneSelf_def runes.simps ValidRune_def eval_defs)

text \<open>
  C8. After \<open>a\<close>, \<open>b\<close> and the byte \<open>0xff\<close> have been read from \<open>"ab\xff"\<close>,
  \<open>IgnoreCharacter\<close> removes three bytes, the whole input, and sets the position to 0: the
  most recently read unit is one byte wide. And where \<open>Backup\<close> tests the popped rune
  against the sentinel, \<open>IgnoreCharacter\<close> does not: after \<open>a\<close> has been read from
  \<open>"a"\<close> and \<open>Next\<close> has returned the sentinel at the end of the input, it takes the
  width -1 of the sentinel and panics on the slice \<open>Input[:2]\<close>.
\<close>

theorem C8_ignorecharacter_invalid_byte:
  "Next ((New (''ab'' @ [CHR 0xFF]) None)\<lparr>Position := 2, Rewind := [98, 97]\<rparr>)
     = Inr (65533, (New (''ab'' @ [CHR 0xFF]) None)\<lparr>Position := 3, Rewind := [65533, 98, 97]\<rparr>)
   \<and> IgnoreCharacter ((New (''ab'' @ [CHR 0xFF]) None)\<lparr>Position := 3, Rewind := [65533, 98, 97]\<rparr>)
     = Inr ((New [] None)\<lparr>Position := 0, Rewind := [98, 97]\<rparr>)
   \<and> Next ((New ''a'' None)\<lparr>Position := 1, Rewind := [97]\<rparr>)
     = Inr (- 1, (New ''a'' None)\<lparr>Position := 1, Rewind := [- 1, 97]\<rparr>)
   \<and> IgnoreCharacter ((New ''a'' None)\<lparr>Position := 1, Rewind := [- 1, 97]\<rparr>)
     = Inl SliceBounds"
  by (simp add: IgnoreCharacter_def eval_defs)

subsection \<open>Rendering a token\<close>

text \<open>
  C7. The test of \<open>Token.String\<close> is on the length of the value in bytes, and the
  precision of \<open>%.10q\<close> cuts after runes. The value below is six times the character
  U+00E9, twelve bytes. It is not longer than 10 characters and nothing of it is cut, yet
  its rendering ends with the ellipsis. This holds whatever \<open>strconv.Quote\<close> does.
\<close>

theorem C7_render_multibyte:
  "map fst (runes [CHR 0xC3, CHR 0xA9, CHR 0xC3, CHR 0xA9, CHR 0xC3, CHR 0xA9,
                   CHR 0xC3, CHR 0xA9, CHR 0xC3, CHR 0xA9, CHR 0xC3, CHR 0xA9])
     = [233, 233, 233, 233, 233, 233]
   \<and> (\<forall>quote. Token_String quote
          \<lparr>Type = 1,
           Value = [CHR 0xC3, CHR 0xA9, CHR 0xC3, CHR 0xA9, CHR 0xC3, CHR 0xA9,
                    CHR 0xC3, CHR 0xA9, CHR 0xC3, CHR 0xA9, CHR 0xC3, CHR 0xA9],
           Start = 0, End = 12\<rparr>
        = quote [CHR 0xC3, CHR 0xA9, CHR 0xC3, CHR 0xA9, CHR 0xC3, CHR 0xA9,
                 CHR 0xC3, CHR 0xA9, CHR 0xC3, CHR 0xA9, CHR 0xC3, CHR 0xA9] @ ''...'')
   \<and> (\<forall>quote. Token_String quote
          \<lparr>Type = 1,
           Value = [CHR 0xC3, CHR 0xA9, CHR 0xC3, CHR 0xA9, CHR 0xC3, CHR 0xA9,
                    CHR 0xC3, CHR 0xA9, CHR 0xC3, CHR 0xA9, CHR 0xC3, CHR 0xA9],
           Start = 0, End = 12\<rparr>
        \<noteq> quote [CHR 0xC3, CHR 0xA9, CHR 0xC3, CHR 0xA9, CHR 0xC3, CHR 0xA9,
                 CHR 0xC3, CHR 0xA9, CHR 0xC3, CHR 0xA9, CHR 0xC3, CHR 0xA9])"
  by (simp add: Token_String_def truncateString_def runes.simps DecodeRuneInString_def
      first_def acceptRanges_def EOFToken_def ErrorToken_def Let_def)

text \<open>
  What \<open>Token.String\<close> computes: the branch is taken on the length in bytes, and the text
  that is quoted in the last branch is the prefix of the value made of its first 10 runes.
\<close>

lemma Token_String_cases:
  "Token_String quote t =
     (if Type t = EOFToken then ''EOF''
      else if Type t = ErrorToken then Value t
      else if length (Value t) \<le> 10 then quote (Value t)
      else quote (truncateString 10 (Value t)) @ ''...'')
   \<and> runes (truncateString 10 (Value t)) = take 10 (runes (Value t))
   \<and> truncateString 10 (Value t) = take (length (truncateString 10 (Value t))) (Value t)"
proof -
  have prefix: "take k s = take (length (take k s)) s" for k and s :: string
    by (cases "k \<le> length s") (simp_all add: min_def)
  show ?thesis
    using prefix [of "nat (sum_list (map snd (take 10 (runes (Value t)))))" "Value t"]
    by (simp add: Token_String_def truncateString_def runes_take del: length_take)
qed

end
